theory Spec2Isabelle
  imports Main "HOL-Library.Word" "HOL-Library.Monad_Syntax" "HOL-Library.Sublist" "HOL-Library.Multiset"
begin

unbundle bit_operations_syntax

section \<open>Maya arrays and machine integers\<close>

text \<open>
  The module works on Maya arrays (\<open>MIntArray\<close>, \<open>MPointArray\<close>, \<open>MVectorArray\<close>), modelled
  as lists. \<open>operator[]\<close> takes an \<open>unsigned int\<close> index and does no range checking, so
  an access outside \<open>0 .. length - 1\<close> is undefined behaviour in C++. The embedding is
  total: every array access returns an \<open>option\<close>, and \<open>None\<close> is the out-of-range branch.
  A function that indexes arrays returns \<open>None\<close> as soon as one of its accesses is out of
  range. \<open>MPointArray::set\<close> with an index out of range is put on the same branch: the
  code drops the status \<open>set\<close> returns, and no statement below depends on what Maya does
  then.

  Array elements of \<open>MIntArray\<close> are C \<open>int\<close>s, modelled as \<open>int\<close>; loop counters and
  lengths are \<open>unsigned int\<close>, modelled as \<open>nat\<close>. The two conversions the code performs
  implicitly are written out: \<open>uint_of\<close> (\<open>int\<close> to \<open>unsigned int\<close>, modulo \<open>2^32\<close>) and
  \<open>to_int\<close> (\<open>unsigned int\<close> to \<open>int\<close>, two's complement). A Maya array holds fewer than
  \<open>2^32\<close> elements (its \<open>length()\<close> is an \<open>unsigned int\<close>), so a counter that stays below
  an array length never wraps.

  Arrays passed by reference to one function are distinct objects, as they are at every
  call in the module; so are the source, target and output meshes of \<open>reorderMesh\<close>.
\<close>

definition uint_of :: "int \<Rightarrow> nat" where
  "uint_of v = nat (v mod 2 ^ 32)"

definition to_int :: "nat \<Rightarrow> int" where
  "to_int n = (if n mod 2 ^ 32 < 2 ^ 31 then int (n mod 2 ^ 32) else int (n mod 2 ^ 32) - 2 ^ 32)"

text \<open>\<open>xs[i]\<close> read.\<close>

definition at :: "'a list \<Rightarrow> nat \<Rightarrow> 'a option" where
  "at xs i = (if i < length xs then Some (xs ! i) else None)"

text \<open>\<open>xs[i] = v\<close> and \<open>xs.set(v, i)\<close>.\<close>

definition put :: "'a list \<Rightarrow> nat \<Rightarrow> 'a \<Rightarrow> 'a list option" where
  "put xs i v = (if i < length xs then Some (xs[i := v]) else None)"

text \<open>
  \<open>xs.setLength(n)\<close> keeps the first \<open>n\<close> elements; the elements it grows are
  uninitialised. Their content is a parameter \<open>u\<close> of the model, a function of the index.
\<close>

definition setLength :: "(nat \<Rightarrow> 'a) \<Rightarrow> nat \<Rightarrow> 'a list \<Rightarrow> 'a list" where
  "setLength u n xs = take n xs @ map u [length xs..<n]"

section \<open>The mesh store\<close>

text \<open>
  The Maya mesh (\<open>MObject\<close> accessed through \<open>MFnMesh\<close>, \<open>MItMeshPolygon\<close> and
  \<open>MItMeshEdge\<close>) is external to the module. It is a parameter of the model: a mesh is a
  value of an arbitrary type \<open>'m\<close>, and a record of functions gives what the store answers
  to each query and what each mutating call does. Points (\<open>'p\<close>), float points (\<open>'fp\<close>),
  normals (\<open>'n\<close>) and UV coordinates (\<open>'u\<close>) are floating-point payloads that the module
  only copies; they are type parameters.
\<close>

datatype MStatus =
    kSuccess | kFailure | kInsufficientMemory | kInvalidParameter | kLicenseFailure
  | kUnknownParameter | kNotImplemented | kNotFound | kEndOfFile

text \<open>
  Modelled from the spec: the struct \<open>UVSetData\<close> is declared in the header, which is not
  among the sources. The spec (4.7) gives a UV set as \<open>{name, uCoords, vCoords,
  cornerCounts, cornerAssignments}\<close>; the field names are the ones \<open>getUVs\<close> and \<open>setUVs\<close>
  use.
\<close>

record 'u UVSetData =
  name :: string
  uArray :: "'u list"
  vArray :: "'u list"
  uvCounts :: "int list"
  uvIds :: "int list"

text \<open>The mutating calls the module issues against a mesh, with their arguments.\<close>

datatype ('p, 'fp, 'n, 'u) call =
    Create int int "'p list" "int list" "int list"
  | CreateInPlace int int "'fp list" "int list" "int list"
  | CreateUVSet string
  | ClearUVs string
  | SetUVs "'u list" "'u list" string
  | AssignUVs "int list" "int list" string
  | SetFaceVertexNormals "'n list" "int list" "int list"
  | UnlockFaceVertexNormals "int list" "int list"
  | LockFaceVertexNormals "int list" "int list"
  | SetSmoothing nat bool

text \<open>
  A query that fills arrays returns its status and the content of the arrays after the call.
  \<open>fn_polygons\<close> is what \<open>MItMeshPolygon\<close> yields: for each polygon in iteration order, the
  normals \<open>getNormal(v, ...)\<close> writes for \<open>v = 0 .. polygonVertexCount() - 1\<close>.
  \<open>fn_edges\<close> is what \<open>MItMeshEdge\<close> yields: for each edge in iteration order,
  \<open>index(0)\<close>, \<open>index(1)\<close> and \<open>isSmooth()\<close>; the sequence is fixed when the iterator is
  constructed. \<open>SetSmoothing k b\<close> is \<open>setSmoothing(b)\<close> on the iterator at its \<open>k\<close>-th edge.
  \<open>fn_numUVSets\<close> is the count \<open>numUVSets()\<close> reports, an \<open>int\<close> that is not negative.
  The \<open>uninit\<close> fields are the contents of array cells grown by \<open>setLength\<close>;
  \<open>origin_float\<close> is the default \<open>MFloatPoint\<close> and \<open>fn_setCast\<close> is
  \<open>MFloatPoint::setCast\<close>.
\<close>

record ('m, 'p, 'fp, 'n, 'u) store =
  fn_numVertices :: "'m \<Rightarrow> int"
  fn_numPolygons :: "'m \<Rightarrow> int"
  fn_getPoints :: "'m \<Rightarrow> MStatus \<times> 'p list"
  fn_getVertices :: "'m \<Rightarrow> MStatus \<times> int list \<times> int list"
  fn_polygons :: "'m \<Rightarrow> 'n list list"
  fn_getNormalIds :: "'m \<Rightarrow> MStatus \<times> int list \<times> int list"
  fn_isNormalLocked :: "'m \<Rightarrow> int \<Rightarrow> bool"
  fn_edges :: "'m \<Rightarrow> (int \<times> int \<times> bool) list"
  fn_numUVSets :: "'m \<Rightarrow> nat"
  fn_getUVSetNames :: "'m \<Rightarrow> string list"
  fn_getUVs :: "'m \<Rightarrow> string \<Rightarrow> MStatus \<times> 'u list \<times> 'u list"
  fn_getAssignedUVs :: "'m \<Rightarrow> string \<Rightarrow> MStatus \<times> int list \<times> int list"
  fn_setCast :: "'p \<Rightarrow> 'fp"
  fn_call :: "('p, 'fp, 'n, 'u) call \<Rightarrow> 'm \<Rightarrow> MStatus \<times> 'm"
  uninit_int :: "nat \<Rightarrow> int"
  uninit_point :: "nat \<Rightarrow> 'p"
  uninit_vector :: "nat \<Rightarrow> 'n"
  origin_float :: "'fp"

section \<open>Point and topology remap\<close>

text \<open>
  \<open>polyReorder::getPoints\<close> (lines 25-42). The loop is lines 36-39. \<open>inPoints\<close> is what
  \<open>meshFn.getPoints\<close> leaves in the array; its status is not looked at, and the function
  returns \<open>kSuccess\<close>. \<open>outPoints\<close> is the caller's array (an in/out parameter).
\<close>

function getPoints_loop ::
  "'p list \<Rightarrow> int list \<Rightarrow> nat \<Rightarrow> nat \<Rightarrow> 'p list \<Rightarrow> 'p list option" where
  "getPoints_loop inPoints pointOrder numVertices i outPoints =
     (if i < numVertices then
        (case at inPoints i of
           None \<Rightarrow> None
         | Some p \<Rightarrow>
             (case at pointOrder i of
                None \<Rightarrow> None
              | Some k \<Rightarrow>
                  (case put outPoints (uint_of k) p of
                     None \<Rightarrow> None
                   | Some outPoints' \<Rightarrow>
                       getPoints_loop inPoints pointOrder numVertices (Suc i) outPoints')))
      else Some outPoints)"
  by pat_completeness auto
termination
  by (relation "measure (\<lambda>(inPoints, pointOrder, numVertices, i, outPoints). numVertices - i)")
     auto

declare getPoints_loop.simps [simp del]

definition getPoints ::
  "('m, 'p, 'fp, 'n, 'u) store \<Rightarrow> 'm \<Rightarrow> int list \<Rightarrow> 'p list \<Rightarrow> (MStatus \<times> 'p list) option" where
  "getPoints api mesh pointOrder outPoints =
     (let numVertices = uint_of (fn_numVertices api mesh);
          outPoints = setLength (uninit_point api) numVertices outPoints;
          inPoints = snd (fn_getPoints api mesh)
      in case getPoints_loop inPoints pointOrder numVertices 0 outPoints of
           None \<Rightarrow> None
         | Some outPoints \<Rightarrow> Some (kSuccess, outPoints))"

text \<open>
  \<open>polyReorder::getPolys\<close> (lines 45-59). \<open>polyCounts\<close> and \<open>polyConnects\<close> are filled by
  \<open>meshFn.getVertices\<close>, whose status is not looked at, so the caller's two arrays are
  results only; the loop (lines 52-55) rewrites \<open>polyConnects\<close> in place.
\<close>

function getPolys_loop :: "int list \<Rightarrow> nat \<Rightarrow> int list \<Rightarrow> int list option" where
  "getPolys_loop pointOrder i polyConnects =
     (if i < length polyConnects then
        (case at polyConnects i of
           None \<Rightarrow> None
         | Some v \<Rightarrow>
             (case at pointOrder (uint_of v) of
                None \<Rightarrow> None
              | Some w \<Rightarrow>
                  (case put polyConnects i w of
                     None \<Rightarrow> None
                   | Some polyConnects' \<Rightarrow> getPolys_loop pointOrder (Suc i) polyConnects')))
      else Some polyConnects)"
  by pat_completeness auto
termination
  by (relation "measure (\<lambda>(pointOrder, i, polyConnects). length polyConnects - i)")
     (auto simp: put_def split: if_splits)

declare getPolys_loop.simps [simp del]

definition getPolys ::
  "('m, 'p, 'fp, 'n, 'u) store \<Rightarrow> 'm \<Rightarrow> int list \<Rightarrow> bool
     \<Rightarrow> (MStatus \<times> int list \<times> int list) option" where
  "getPolys api mesh pointOrder reorderPoints =
     (case fn_getVertices api mesh of
        (st, polyCounts, polyConnects) \<Rightarrow>
          if reorderPoints then
            (case getPolys_loop pointOrder 0 polyConnects of
               None \<Rightarrow> None
             | Some polyConnects' \<Rightarrow> Some (kSuccess, polyCounts, polyConnects'))
          else Some (kSuccess, polyCounts, polyConnects))"

section \<open>Face-vertex enumeration\<close>

text \<open>
  \<open>polyReorder::getFaceVertexList\<close> (lines 62-80). The inner loop is
  \<^verbatim>\<open>for (int j = 0; j < polyCounts[i]; j++, idx++)\<close>; it returns the advanced \<open>idx\<close>
  and the two arrays.
\<close>

function getFaceVertexList_inner ::
  "int list \<Rightarrow> int list \<Rightarrow> nat \<Rightarrow> int \<Rightarrow> nat \<Rightarrow> int list \<Rightarrow> int list
     \<Rightarrow> (nat \<times> int list \<times> int list) option" where
  "getFaceVertexList_inner polyCounts polyConnects i j idx faceList vertexList =
     (case at polyCounts i of
        None \<Rightarrow> None
      | Some c \<Rightarrow>
          if j < c then
            (case put faceList idx (to_int i) of
               None \<Rightarrow> None
             | Some faceList' \<Rightarrow>
                 (case at polyConnects idx of
                    None \<Rightarrow> None
                  | Some v \<Rightarrow>
                      (case put vertexList idx v of
                         None \<Rightarrow> None
                       | Some vertexList' \<Rightarrow>
                           getFaceVertexList_inner polyCounts polyConnects i (j + 1) (Suc idx)
                             faceList' vertexList')))
          else Some (idx, faceList, vertexList))"
  by pat_completeness auto
termination
  by (relation "measure (\<lambda>(polyCounts, polyConnects, i, j, idx, faceList, vertexList).
        nat (polyCounts ! i - j))")
     (auto simp: at_def split: if_splits)

declare getFaceVertexList_inner.simps [simp del]

text \<open>The outer loop \<^verbatim>\<open>for (uint i = 0; i < numPolys; i++)\<close>.\<close>

function getFaceVertexList_outer ::
  "int list \<Rightarrow> int list \<Rightarrow> nat \<Rightarrow> nat \<Rightarrow> nat \<Rightarrow> int list \<Rightarrow> int list
     \<Rightarrow> (int list \<times> int list) option" where
  "getFaceVertexList_outer polyCounts polyConnects numPolys i idx faceList vertexList =
     (if i < numPolys then
        (case getFaceVertexList_inner polyCounts polyConnects i 0 idx faceList vertexList of
           None \<Rightarrow> None
         | Some (idx', faceList', vertexList') \<Rightarrow>
             getFaceVertexList_outer polyCounts polyConnects numPolys (Suc i) idx'
               faceList' vertexList')
      else Some (faceList, vertexList))"
  by pat_completeness auto
termination
  by (relation "measure (\<lambda>(polyCounts, polyConnects, numPolys, i, idx, faceList, vertexList).
        numPolys - i)") auto

declare getFaceVertexList_outer.simps [simp del]

text \<open>
  The first argument is the content of the \<open>int\<close> cells that \<open>setLength\<close> grows; \<open>faceList\<close>
  and \<open>vertexList\<close> are the caller's arrays (in/out parameters in the source).
\<close>

definition getFaceVertexList ::
  "(nat \<Rightarrow> int) \<Rightarrow> int list \<Rightarrow> int list \<Rightarrow> int list \<Rightarrow> int list
     \<Rightarrow> (int list \<times> int list) option" where
  "getFaceVertexList u polyCounts polyConnects faceList vertexList =
     (let numPolys = length polyCounts;
          numNormals = length polyConnects;
          faceList = setLength u numNormals faceList;
          vertexList = setLength u numNormals vertexList
      in getFaceVertexList_outer polyCounts polyConnects numPolys 0 0 faceList vertexList)"

section \<open>Normal transfer\<close>

text \<open>
  \<open>polyReorder::getFaceVertexNormals\<close> (lines 83-100). The inner loop (lines 93-96) passes
  \<open>vertexNormals[i]\<close> to \<open>getNormal\<close>, which writes the normal of corner \<open>v\<close> of the
  current polygon there; the array is never resized. The status of \<open>getNormal\<close> is not
  looked at. \<open>normals\<close> are the normals of the current polygon and \<open>numVertices\<close> is their
  number, so \<open>normals ! v\<close> is always in range.
\<close>

function getFaceVertexNormals_inner ::
  "'n list \<Rightarrow> nat \<Rightarrow> nat \<Rightarrow> nat \<Rightarrow> 'n list \<Rightarrow> (nat \<times> 'n list) option" where
  "getFaceVertexNormals_inner normals numVertices v i vertexNormals =
     (if v < numVertices then
        (case put vertexNormals i (normals ! v) of
           None \<Rightarrow> None
         | Some vertexNormals' \<Rightarrow>
             getFaceVertexNormals_inner normals numVertices (Suc v) (Suc i) vertexNormals')
      else Some (i, vertexNormals))"
  by pat_completeness auto
termination
  by (relation "measure (\<lambda>(normals, numVertices, v, i, vertexNormals). numVertices - v)") auto

declare getFaceVertexNormals_inner.simps [simp del]

text \<open>The loop over \<open>MItMeshPolygon\<close> (lines 89-97); \<open>numVertices\<close> is \<open>polygonVertexCount()\<close>.\<close>

fun getFaceVertexNormals_polys :: "'n list list \<Rightarrow> nat \<Rightarrow> 'n list \<Rightarrow> 'n list option" where
  "getFaceVertexNormals_polys [] i vertexNormals = Some vertexNormals"
| "getFaceVertexNormals_polys (normals # itPoly) i vertexNormals =
     (let numVertices = length normals
      in case getFaceVertexNormals_inner normals numVertices 0 i vertexNormals of
           None \<Rightarrow> None
         | Some (i', vertexNormals') \<Rightarrow> getFaceVertexNormals_polys itPoly i' vertexNormals')"

definition getFaceVertexNormals ::
  "('m, 'p, 'fp, 'n, 'u) store \<Rightarrow> 'm \<Rightarrow> 'n list \<Rightarrow> (MStatus \<times> 'n list) option" where
  "getFaceVertexNormals api mesh vertexNormals =
     (case getFaceVertexNormals_polys (fn_polygons api mesh) 0 vertexNormals of
        None \<Rightarrow> None
      | Some vertexNormals' \<Rightarrow> Some (kSuccess, vertexNormals'))"

text \<open>
  \<open>polyReorder::setFaceVertexNormals\<close> (lines 103-121). \<open>CHECK_MSTATUS_AND_RETURN_IT\<close>
  returns the status when it is not \<open>kSuccess\<close>. The result is the status and the mesh as
  the calls left it.
\<close>

definition setFaceVertexNormals ::
  "('m, 'p, 'fp, 'n, 'u) store \<Rightarrow> 'm \<Rightarrow> int list \<Rightarrow> int list \<Rightarrow> 'n list
     \<Rightarrow> (MStatus \<times> 'm) option" where
  "setFaceVertexNormals api mesh polyCounts polyConnects vertexNormals =
     (case getFaceVertexList (uninit_int api) polyCounts polyConnects [] [] of
        None \<Rightarrow> None
      | Some (faceList, vertexList) \<Rightarrow>
          (case fn_call api (SetFaceVertexNormals vertexNormals faceList vertexList) mesh of
             (status, mesh1) \<Rightarrow>
               if status \<noteq> kSuccess then Some (status, mesh1)
               else
                 (case fn_call api (UnlockFaceVertexNormals faceList vertexList) mesh1 of
                    (status, mesh2) \<Rightarrow>
                      if status \<noteq> kSuccess then Some (status, mesh2)
                      else Some (kSuccess, mesh2))))"

section \<open>Lock transfer\<close>

text \<open>
  \<open>polyReorder::getFaceVertexLocks\<close> (lines 123-145). \<open>isNormalLocked\<close> returns a \<open>bool\<close>,
  stored in the \<open>MIntArray\<close> as 1 or 0.
\<close>

function getFaceVertexLocks_loop ::
  "(int \<Rightarrow> bool) \<Rightarrow> int list \<Rightarrow> nat \<Rightarrow> nat \<Rightarrow> int list \<Rightarrow> int list option" where
  "getFaceVertexLocks_loop isNormalLocked normalIds numNormals i lockedList =
     (if i < numNormals then
        (case at normalIds i of
           None \<Rightarrow> None
         | Some normalId \<Rightarrow>
             (case put lockedList i (if isNormalLocked normalId then 1 else 0) of
                None \<Rightarrow> None
              | Some lockedList' \<Rightarrow>
                  getFaceVertexLocks_loop isNormalLocked normalIds numNormals (Suc i) lockedList'))
      else Some lockedList)"
  by pat_completeness auto
termination
  by (relation "measure (\<lambda>(isNormalLocked, normalIds, numNormals, i, lockedList).
        numNormals - i)") auto

declare getFaceVertexLocks_loop.simps [simp del]

definition getFaceVertexLocks ::
  "('m, 'p, 'fp, 'n, 'u) store \<Rightarrow> 'm \<Rightarrow> int list \<Rightarrow> (MStatus \<times> int list) option" where
  "getFaceVertexLocks api mesh lockedList =
     (case fn_getNormalIds api mesh of
        (status, normalCounts, normalIds) \<Rightarrow>
          if status \<noteq> kSuccess then Some (status, lockedList)
          else
            (let numNormals = length normalIds;
                 lockedList = setLength (uninit_int api) numNormals lockedList
             in case getFaceVertexLocks_loop (fn_isNormalLocked api mesh) normalIds numNormals 0
                       lockedList of
                  None \<Rightarrow> None
                | Some lockedList' \<Rightarrow> Some (kSuccess, lockedList')))"

text \<open>
  \<open>polyReorder::setFaceVertexLocks\<close> (lines 147-206). The partition loop is lines 175-187;
  it returns the four arrays and the counters \<open>L\<close> and \<open>UL\<close>. Both branches read
  \<open>faceList[i]\<close> and \<open>vertexList[i]\<close>, so the two reads come before the test.
\<close>

function setFaceVertexLocks_loop ::
  "int list \<Rightarrow> int list \<Rightarrow> int list \<Rightarrow> nat \<Rightarrow> nat
     \<Rightarrow> int list \<Rightarrow> int list \<Rightarrow> int list \<Rightarrow> int list \<Rightarrow> nat \<Rightarrow> nat
     \<Rightarrow> (int list \<times> int list \<times> int list \<times> int list \<times> nat \<times> nat) option" where
  "setFaceVertexLocks_loop lockedList faceList vertexList numNormals i
       lockedFaceList lockedVertList unlockedFaceList unlockedVertList L UL =
     (if i < numNormals then
        (case at lockedList i of
           None \<Rightarrow> None
         | Some flag \<Rightarrow>
             (case at faceList i of
                None \<Rightarrow> None
              | Some f \<Rightarrow>
                  (case at vertexList i of
                     None \<Rightarrow> None
                   | Some v \<Rightarrow>
                       if flag = 1 then
                         (case put lockedFaceList L f of
                            None \<Rightarrow> None
                          | Some lockedFaceList' \<Rightarrow>
                              (case put lockedVertList L v of
                                 None \<Rightarrow> None
                               | Some lockedVertList' \<Rightarrow>
                                   setFaceVertexLocks_loop lockedList faceList vertexList
                                     numNormals (Suc i) lockedFaceList' lockedVertList'
                                     unlockedFaceList unlockedVertList (Suc L) UL))
                       else
                         (case put unlockedFaceList UL f of
                            None \<Rightarrow> None
                          | Some unlockedFaceList' \<Rightarrow>
                              (case put unlockedVertList UL v of
                                 None \<Rightarrow> None
                               | Some unlockedVertList' \<Rightarrow>
                                   setFaceVertexLocks_loop lockedList faceList vertexList
                                     numNormals (Suc i) lockedFaceList lockedVertList
                                     unlockedFaceList' unlockedVertList' L (Suc UL))))))
      else Some (lockedFaceList, lockedVertList, unlockedFaceList, unlockedVertList, L, UL))"
  by pat_completeness auto
termination
  by (relation "measure (\<lambda>(lockedList, faceList, vertexList, numNormals, i, rest).
        numNormals - i)") auto

declare setFaceVertexLocks_loop.simps [simp del]

text \<open>
  \<open>MIntArray a(n)\<close> is \<open>n\<close> elements of value 0. The two bulk calls are lines 189-203:
  each is issued only when its counter is not 0, the unlock call first. When a block is
  skipped, \<open>status\<close> is still the \<open>kSuccess\<close> of \<open>getVertices\<close> and the mesh is unchanged.
\<close>

definition setFaceVertexLocks ::
  "('m, 'p, 'fp, 'n, 'u) store \<Rightarrow> 'm \<Rightarrow> int list \<Rightarrow> (MStatus \<times> 'm) option" where
  "setFaceVertexLocks api mesh lockedList =
     (case fn_getVertices api mesh of
        (status, polyCounts, polyConnects) \<Rightarrow>
          if status \<noteq> kSuccess then Some (status, mesh)
          else
            (case getFaceVertexList (uninit_int api) polyCounts polyConnects [] [] of
               None \<Rightarrow> None
             | Some (faceList, vertexList) \<Rightarrow>
                 (let numNormals = length polyConnects
                  in case setFaceVertexLocks_loop lockedList faceList vertexList numNormals 0
                            (replicate numNormals 0) (replicate numNormals 0)
                            (replicate numNormals 0) (replicate numNormals 0) 0 0 of
                       None \<Rightarrow> None
                     | Some (lockedFaceList, lockedVertList, unlockedFaceList, unlockedVertList,
                             L, UL) \<Rightarrow>
                         (case (if UL \<noteq> 0 then
                                  fn_call api (UnlockFaceVertexNormals
                                    (setLength (uninit_int api) UL unlockedFaceList)
                                    (setLength (uninit_int api) UL unlockedVertList)) mesh
                                else (kSuccess, mesh)) of
                            (status, mesh1) \<Rightarrow>
                              if status \<noteq> kSuccess then Some (status, mesh1)
                              else
                                (case (if L \<noteq> 0 then
                                         fn_call api (LockFaceVertexNormals
                                           (setLength (uninit_int api) L lockedFaceList)
                                           (setLength (uninit_int api) L lockedVertList)) mesh1
                                       else (kSuccess, mesh1)) of
                                   (status, mesh2) \<Rightarrow>
                                     if status \<noteq> kSuccess then Some (status, mesh2)
                                     else Some (kSuccess, mesh2))))))"

section \<open>Edge smoothing transfer\<close>

text \<open>
  Modelled from the spec: \<open>polyReorder::twoIntKey\<close> is defined in the header, which is not
  among the sources. The spec (4.1) gives it as \<open>encode(a: uint32, b: uint32) -> uint64\<close>,
  packing \<open>(v0 << 32) | v1\<close> without sorting the pair.
\<close>

definition twoIntKey :: "int \<Rightarrow> int \<Rightarrow> 64 word" where
  "twoIntKey v0 v1 =
     push_bit 32 (ucast (word_of_int v0 :: 32 word)) OR ucast (word_of_int v1 :: 32 word)"

text \<open>
  \<open>std::unordered_map<uint64_t, bool>\<close> is a map \<open>64 word \<rightharpoonup> bool\<close>. \<open>emplace\<close> inserts
  only when the key is absent; \<open>operator[]\<close> inserts the value-initialised \<open>false\<close> when the
  key is absent and returns the stored value.
\<close>

definition emplace :: "('k \<rightharpoonup> bool) \<Rightarrow> 'k \<Rightarrow> bool \<Rightarrow> ('k \<rightharpoonup> bool)" where
  "emplace m k b = (case m k of None \<Rightarrow> m(k \<mapsto> b) | Some _ \<Rightarrow> m)"

definition subscript :: "('k \<rightharpoonup> bool) \<Rightarrow> 'k \<Rightarrow> bool \<times> ('k \<rightharpoonup> bool)" where
  "subscript m k = (case m k of None \<Rightarrow> (False, m(k \<mapsto> False)) | Some b \<Rightarrow> (b, m))"

text \<open>\<open>polyReorder::getEdgeSmoothing\<close> (lines 209-228); the loop over \<open>MItMeshEdge\<close>.\<close>

fun getEdgeSmoothing_loop ::
  "int list \<Rightarrow> (int \<times> int \<times> bool) list \<Rightarrow> (64 word \<rightharpoonup> bool) \<Rightarrow> (64 word \<rightharpoonup> bool) option" where
  "getEdgeSmoothing_loop pointOrder [] edgeSmoothing = Some edgeSmoothing"
| "getEdgeSmoothing_loop pointOrder ((index0, index1, isSmooth) # itEdge) edgeSmoothing =
     (case at pointOrder (uint_of index0) of
        None \<Rightarrow> None
      | Some v0 \<Rightarrow>
          (case at pointOrder (uint_of index1) of
             None \<Rightarrow> None
           | Some v1 \<Rightarrow>
               (let edgeKey = twoIntKey v0 v1
                in getEdgeSmoothing_loop pointOrder itEdge
                     (emplace edgeSmoothing edgeKey isSmooth))))"

definition getEdgeSmoothing ::
  "('m, 'p, 'fp, 'n, 'u) store \<Rightarrow> 'm \<Rightarrow> int list \<Rightarrow> (64 word \<rightharpoonup> bool)
     \<Rightarrow> (MStatus \<times> (64 word \<rightharpoonup> bool)) option" where
  "getEdgeSmoothing api mesh pointOrder edgeSmoothing =
     (case getEdgeSmoothing_loop pointOrder (fn_edges api mesh) edgeSmoothing of
        None \<Rightarrow> None
      | Some edgeSmoothing' \<Rightarrow> Some (kSuccess, edgeSmoothing'))"

text \<open>
  \<open>polyReorder::setEdgeSmoothing\<close> (lines 231-250). The third argument of the loop is the
  position of the iterator. The status of \<open>setSmoothing\<close> is not looked at. The result is the
  status, the mesh and the map (which \<open>operator[]\<close> may have grown).
\<close>

fun setEdgeSmoothing_loop ::
  "('m, 'p, 'fp, 'n, 'u) store \<Rightarrow> (int \<times> int \<times> bool) list \<Rightarrow> nat \<Rightarrow> 'm \<Rightarrow> (64 word \<rightharpoonup> bool)
     \<Rightarrow> 'm \<times> (64 word \<rightharpoonup> bool)" where
  "setEdgeSmoothing_loop api [] k mesh edgeSmoothing = (mesh, edgeSmoothing)"
| "setEdgeSmoothing_loop api ((v0, v1, isSmooth) # itEdge) k mesh edgeSmoothing =
     (let edgeKey = twoIntKey v0 v1
      in case subscript edgeSmoothing edgeKey of
           (smooth, edgeSmoothing') \<Rightarrow>
             setEdgeSmoothing_loop api itEdge (Suc k)
               (snd (fn_call api (SetSmoothing k smooth) mesh)) edgeSmoothing')"

definition setEdgeSmoothing ::
  "('m, 'p, 'fp, 'n, 'u) store \<Rightarrow> 'm \<Rightarrow> (64 word \<rightharpoonup> bool)
     \<Rightarrow> MStatus \<times> 'm \<times> (64 word \<rightharpoonup> bool)" where
  "setEdgeSmoothing api mesh edgeSmoothing =
     (case setEdgeSmoothing_loop api (fn_edges api mesh) 0 mesh edgeSmoothing of
        (mesh', edgeSmoothing') \<Rightarrow> (kSuccess, mesh', edgeSmoothing'))"

section \<open>UV set transfer\<close>

text \<open>
  \<open>polyReorder::getUVs\<close> (lines 253-280). \<open>uvSets.resize(n)\<close> keeps the first \<open>n\<close> entries
  and appends value-initialised ones. The first loop (lines 265-268) reads \<open>uvSetNames[i]\<close>;
  the second (lines 270-277) fills each set and returns at the first failing query.
\<close>

definition emptyUVSetData :: "'u UVSetData" where
  "emptyUVSetData = \<lparr>name = [], uArray = [], vArray = [], uvCounts = [], uvIds = []\<rparr>"

definition resize :: "nat \<Rightarrow> 'u UVSetData list \<Rightarrow> 'u UVSetData list" where
  "resize n uvSets = take n uvSets @ replicate (n - length uvSets) emptyUVSetData"

function getUVs_names ::
  "string list \<Rightarrow> nat \<Rightarrow> nat \<Rightarrow> 'u UVSetData list \<Rightarrow> 'u UVSetData list option" where
  "getUVs_names uvSetNames numUVSets i uvSets =
     (if i < numUVSets then
        (case at uvSetNames i of
           None \<Rightarrow> None
         | Some n \<Rightarrow>
             (case at uvSets i of
                None \<Rightarrow> None
              | Some uvData \<Rightarrow>
                  getUVs_names uvSetNames numUVSets (Suc i) (uvSets[i := uvData\<lparr>name := n\<rparr>])))
      else Some uvSets)"
  by pat_completeness auto
termination
  by (relation "measure (\<lambda>(uvSetNames, numUVSets, i, uvSets). numUVSets - i)") auto

declare getUVs_names.simps [simp del]

text \<open>
  The second loop: the sets already visited are the first argument, the ones still to visit
  the second.
\<close>

fun getUVs_fill ::
  "('m, 'p, 'fp, 'n, 'u) store \<Rightarrow> 'm \<Rightarrow> 'u UVSetData list \<Rightarrow> 'u UVSetData list
     \<Rightarrow> MStatus \<times> 'u UVSetData list" where
  "getUVs_fill api mesh visited [] = (kSuccess, visited)"
| "getUVs_fill api mesh visited (uvData # rest) =
     (case fn_getUVs api mesh (name uvData) of
        (status, us, vs) \<Rightarrow>
          (let uvData1 = uvData\<lparr>uArray := us, vArray := vs\<rparr>
           in if status \<noteq> kSuccess then (status, visited @ uvData1 # rest)
              else
                (case fn_getAssignedUVs api mesh (name uvData) of
                   (status, counts, ids) \<Rightarrow>
                     (let uvData2 = uvData1\<lparr>uvCounts := counts, uvIds := ids\<rparr>
                      in if status \<noteq> kSuccess then (status, visited @ uvData2 # rest)
                         else getUVs_fill api mesh (visited @ [uvData2]) rest))))"

definition getUVs ::
  "('m, 'p, 'fp, 'n, 'u) store \<Rightarrow> 'm \<Rightarrow> 'u UVSetData list
     \<Rightarrow> (MStatus \<times> 'u UVSetData list) option" where
  "getUVs api mesh uvSets =
     (let numUVSets = fn_numUVSets api mesh;
          uvSets = resize numUVSets uvSets;
          uvSetNames = fn_getUVSetNames api mesh
      in case getUVs_names uvSetNames numUVSets 0 uvSets of
           None \<Rightarrow> None
         | Some uvSets' \<Rightarrow> Some (getUVs_fill api mesh [] uvSets'))"

text \<open>
  \<open>polyReorder::setUVs\<close> (lines 283-308). \<open>CHECK_MSTATUS\<close> after \<open>createUVSet\<close> reports a
  failure and goes on; the three other calls are checked with
  \<open>CHECK_MSTATUS_AND_RETURN_IT\<close>.
\<close>

fun setUVs ::
  "('m, 'p, 'fp, 'n, 'u) store \<Rightarrow> 'm \<Rightarrow> 'u UVSetData list \<Rightarrow> MStatus \<times> 'm" where
  "setUVs api mesh [] = (kSuccess, mesh)"
| "setUVs api mesh (uvData # uvSets) =
     (let mesh0 = (if name uvData \<noteq> ''map1''
                   then snd (fn_call api (CreateUVSet (name uvData)) mesh)
                   else mesh)
      in case fn_call api (ClearUVs (name uvData)) mesh0 of
           (status, mesh1) \<Rightarrow>
             if status \<noteq> kSuccess then (status, mesh1)
             else
               (case fn_call api (SetUVs (uArray uvData) (vArray uvData) (name uvData)) mesh1 of
                  (status, mesh2) \<Rightarrow>
                    if status \<noteq> kSuccess then (status, mesh2)
                    else
                      (case fn_call api (AssignUVs (uvCounts uvData) (uvIds uvData)
                                (name uvData)) mesh2 of
                         (status, mesh3) \<Rightarrow>
                           if status \<noteq> kSuccess then (status, mesh3)
                           else setUVs api mesh3 uvSets)))"

section \<open>The reorder operation\<close>

text \<open>
  \<open>polyReorder::reorderMesh\<close> (lines 311-392), in the three stages of its body.

  Extraction (lines 334-342): the six calls are statements whose returned \<open>MStatus\<close> is
  dropped, so only their array results are kept. All local arrays start empty.
\<close>

definition reorderMesh_extract ::
  "('m, 'p, 'fp, 'n, 'u) store \<Rightarrow> 'm \<Rightarrow> 'm \<Rightarrow> int list \<Rightarrow> bool
     \<Rightarrow> ('p list \<times> int list \<times> int list \<times> 'n list \<times> int list \<times> (64 word \<rightharpoonup> bool)
          \<times> 'u UVSetData list) option" where
  "reorderMesh_extract api sourceMesh targetMesh pointOrder isMeshData =
     do {
       (s1, points) \<leftarrow> getPoints api targetMesh pointOrder [];
       (s2, polyCounts, polyConnects) \<leftarrow> getPolys api sourceMesh pointOrder isMeshData;
       let vertexNormals = setLength (uninit_vector api) (length polyConnects) [];
       (s3, vertexNormals) \<leftarrow> getFaceVertexNormals api targetMesh vertexNormals;
       (s4, lockedList) \<leftarrow> getFaceVertexLocks api targetMesh [];
       (s5, edgeSmoothing) \<leftarrow> getEdgeSmoothing api targetMesh pointOrder Map.empty;
       (s6, uvSets) \<leftarrow> getUVs api targetMesh [];
       Some (points, polyCounts, polyConnects, vertexNormals, lockedList, edgeSmoothing, uvSets)
     }"

text \<open>
  Mesh construction (lines 344-377). \<open>numVertices\<close> and \<open>numPolys\<close> are the \<open>uint\<close>s of
  lines 318-319, passed to \<open>int\<close> parameters. In the first branch \<open>create\<close> writes
  \<open>status\<close>. In the second branch the result of \<open>createInPlace\<close> is dropped and \<open>status\<close> is
  still the default-constructed \<open>MStatus\<close>, which is \<open>kSuccess\<close>. The loop of lines 363-366
  fills \<open>floatPoints\<close>.
\<close>

function reorderMesh_cast ::
  "('p \<Rightarrow> 'fp) \<Rightarrow> 'p list \<Rightarrow> nat \<Rightarrow> nat \<Rightarrow> 'fp list \<Rightarrow> 'fp list option" where
  "reorderMesh_cast setCast points numVertices i floatPoints =
     (if i < numVertices then
        (case at points i of
           None \<Rightarrow> None
         | Some p \<Rightarrow>
             (case put floatPoints i (setCast p) of
                None \<Rightarrow> None
              | Some floatPoints' \<Rightarrow>
                  reorderMesh_cast setCast points numVertices (Suc i) floatPoints'))
      else Some floatPoints)"
  by pat_completeness auto
termination
  by (relation "measure (\<lambda>(setCast, points, numVertices, i, floatPoints). numVertices - i)")
     auto

declare reorderMesh_cast.simps [simp del]

definition reorderMesh_create ::
  "('m, 'p, 'fp, 'n, 'u) store \<Rightarrow> 'm \<Rightarrow> 'm \<Rightarrow> bool \<Rightarrow> 'p list \<Rightarrow> int list \<Rightarrow> int list
     \<Rightarrow> (MStatus \<times> 'm) option" where
  "reorderMesh_create api sourceMesh outMesh isMeshData points polyCounts polyConnects =
     (let numVertices = uint_of (fn_numVertices api sourceMesh);
          numPolys = uint_of (fn_numPolygons api sourceMesh)
      in if isMeshData then
           Some (fn_call api
                   (Create (to_int numVertices) (to_int numPolys) points polyCounts polyConnects)
                   outMesh)
         else
           (case reorderMesh_cast (fn_setCast api) points numVertices 0
                   (replicate numVertices (origin_float api)) of
              None \<Rightarrow> None
            | Some floatPoints \<Rightarrow>
                Some (kSuccess,
                      snd (fn_call api
                             (CreateInPlace (to_int numVertices) (to_int numPolys) floatPoints
                                polyCounts polyConnects)
                             outMesh))))"

text \<open>Attribute application (lines 379-391); \<open>RETURN_IF_ERROR\<close> after each step.\<close>

definition reorderMesh_apply ::
  "('m, 'p, 'fp, 'n, 'u) store \<Rightarrow> 'm \<Rightarrow> 'u UVSetData list \<Rightarrow> int list \<Rightarrow> int list \<Rightarrow> 'n list
     \<Rightarrow> int list \<Rightarrow> (64 word \<rightharpoonup> bool) \<Rightarrow> (MStatus \<times> 'm) option" where
  "reorderMesh_apply api outMesh uvSets polyCounts polyConnects vertexNormals lockedList
       edgeSmoothing =
     (case setUVs api outMesh uvSets of
        (status, mesh1) \<Rightarrow>
          if status \<noteq> kSuccess then Some (status, mesh1)
          else
            (case setFaceVertexNormals api mesh1 polyCounts polyConnects vertexNormals of
               None \<Rightarrow> None
             | Some (status, mesh2) \<Rightarrow>
                 if status \<noteq> kSuccess then Some (status, mesh2)
                 else
                   (case setFaceVertexLocks api mesh2 lockedList of
                      None \<Rightarrow> None
                    | Some (status, mesh3) \<Rightarrow>
                        if status \<noteq> kSuccess then Some (status, mesh3)
                        else
                          (case setEdgeSmoothing api mesh3 edgeSmoothing of
                             (status, mesh4, edgeSmoothing') \<Rightarrow>
                               if status \<noteq> kSuccess then Some (status, mesh4)
                               else Some (kSuccess, mesh4)))))"

definition reorderMesh ::
  "('m, 'p, 'fp, 'n, 'u) store \<Rightarrow> 'm \<Rightarrow> 'm \<Rightarrow> int list \<Rightarrow> 'm \<Rightarrow> bool
     \<Rightarrow> (MStatus \<times> 'm) option" where
  "reorderMesh api sourceMesh targetMesh pointOrder outMesh isMeshData =
     (case reorderMesh_extract api sourceMesh targetMesh pointOrder isMeshData of
        None \<Rightarrow> None
      | Some (points, polyCounts, polyConnects, vertexNormals, lockedList, edgeSmoothing,
              uvSets) \<Rightarrow>
          (case reorderMesh_create api sourceMesh outMesh isMeshData points polyCounts
                  polyConnects of
             None \<Rightarrow> None
           | Some (status, outMesh1) \<Rightarrow>
               if status \<noteq> kSuccess then Some (status, outMesh1)
               else reorderMesh_apply api outMesh1 uvSets polyCounts polyConnects vertexNormals
                      lockedList edgeSmoothing))"

section \<open>Call sequences\<close>

text \<open>
  The statements about which store calls a function issues, and in which order, are made
  against \<open>issue_calls\<close>: it issues the calls of a list one after the other on the mesh,
  and stops at the first call that is \<open>checked\<close> and does not return \<open>kSuccess\<close>, with
  that status and the mesh as that call left it.
\<close>

fun issue_calls ::
  "('m, 'p, 'fp, 'n, 'u) store \<Rightarrow> (('p, 'fp, 'n, 'u) call \<Rightarrow> bool)
     \<Rightarrow> ('p, 'fp, 'n, 'u) call list \<Rightarrow> 'm \<Rightarrow> MStatus \<times> 'm" where
  "issue_calls api checked [] mesh = (kSuccess, mesh)"
| "issue_calls api checked (c # cs) mesh =
     (case fn_call api c mesh of
        (status, mesh') \<Rightarrow>
          if checked c \<and> status \<noteq> kSuccess then (status, mesh')
          else issue_calls api checked cs mesh')"

text \<open>
  The calls the spec (4.7) lists for one UV set: creation unless the set is the default one,
  then clear, coordinates, assignments. Creation is the call whose failure is tolerated.
\<close>

definition applyUVSet_calls :: "'u UVSetData \<Rightarrow> ('p, 'fp, 'n, 'u) call list" where
  "applyUVSet_calls uvData =
     (if name uvData \<noteq> ''map1'' then [CreateUVSet (name uvData)] else []) @
     [ClearUVs (name uvData),
      SetUVs (uArray uvData) (vArray uvData) (name uvData),
      AssignUVs (uvCounts uvData) (uvIds uvData) (name uvData)]"

fun is_CreateUVSet :: "('p, 'fp, 'n, 'u) call \<Rightarrow> bool" where
  "is_CreateUVSet (CreateUVSet n) = True"
| "is_CreateUVSet c = False"

text \<open>
  The calls the spec (4.5) lists for the lock transfer: an unlock call for the unlocked
  corners, then a lock call for the locked ones, each left out when its list is empty.
\<close>

definition applyLocks_calls :: "(int \<times> int) list \<Rightarrow> (int \<times> int) list \<Rightarrow> ('p, 'fp, 'n, 'u) call list" where
  "applyLocks_calls unlocked locked =
     (if unlocked = [] then []
      else [UnlockFaceVertexNormals (map fst unlocked) (map snd unlocked)]) @
     (if locked = [] then []
      else [LockFaceVertexNormals (map fst locked) (map snd locked)])"

text \<open>
  The checks a call list is issued under: every call checked (the lock and normal
  transfers), every call but \<open>createUVSet\<close> checked (the UV transfer), and no call checked
  (\<open>setSmoothing\<close>, whose status the code drops).
\<close>

definition all_checked :: "('p, 'fp, 'n, 'u) call \<Rightarrow> bool" where
  "all_checked c = True"

definition uv_checked :: "('p, 'fp, 'n, 'u) call \<Rightarrow> bool" where
  "uv_checked c = (\<not> is_CreateUVSet c)"

definition no_check :: "('p, 'fp, 'n, 'u) call \<Rightarrow> bool" where
  "no_check c = False"

text \<open>
  The calls the spec (4.6) lists for the smoothing transfer: for the \<open>k\<close>-th edge of the
  output mesh, \<open>setSmoothing\<close> with the flag found under the key of its endpoints, and
  \<open>false\<close> (hard) when the map has no such key.
\<close>

definition lookup_default :: "('k \<rightharpoonup> bool) \<Rightarrow> 'k \<Rightarrow> bool" where
  "lookup_default m k = (case m k of None \<Rightarrow> False | Some b \<Rightarrow> b)"

definition applySmoothing_calls ::
  "(64 word \<rightharpoonup> bool) \<Rightarrow> nat \<Rightarrow> (int \<times> int \<times> bool) list \<Rightarrow> ('p, 'fp, 'n, 'u) call list" where
  "applySmoothing_calls m k edges =
     map (\<lambda>(i, v0, v1, isSmooth). SetSmoothing i (lookup_default m (twoIntKey v0 v1)))
       (enumerate k edges)"

section \<open>Point-order mappings\<close>

text \<open>
  The spec's precondition on \<open>pointOrder\<close> (3, 4.2): a bijection over \<open>[0, n)\<close>, that is
  \<open>n\<close> distinct entries, all in range. \<open>inverseOrder\<close> is its inverse when it sends each
  \<open>pointOrder[i]\<close> back to \<open>i\<close>.
\<close>

definition is_bijection :: "int list \<Rightarrow> nat \<Rightarrow> bool" where
  "is_bijection pointOrder n \<longleftrightarrow>
     length pointOrder = n \<and> distinct pointOrder \<and> (\<forall>v\<in>set pointOrder. 0 \<le> v \<and> v < int n)"

definition is_inverse :: "int list \<Rightarrow> int list \<Rightarrow> bool" where
  "is_inverse pointOrder inverseOrder \<longleftrightarrow>
     length inverseOrder = length pointOrder \<and>
     (\<forall>i<length pointOrder. inverseOrder ! nat (pointOrder ! i) = int i)"

section \<open>A store for concrete runs\<close>

text \<open>
  A small store on which the functions are run at concrete inputs. A mesh holds its data and
  the list of the mutating calls it has received; payloads are integers. The status of
  each mutating call is given by \<open>respond\<close>; a successful \<open>create\<close> or \<open>createInPlace\<close>
  installs the new points and topology.
\<close>

record test_mesh =
  d_points :: "int list"
  d_counts :: "int list"
  d_connects :: "int list"
  d_normals :: "int list list"
  d_normalIds :: "MStatus \<times> int list \<times> int list"
  d_locked :: "int list"
  d_edges :: "(int \<times> int \<times> bool) list"
  d_uvStatus :: MStatus
  d_uvSets :: "int UVSetData list"
  d_calls :: "(int, int, int, int) call list"

fun test_uvSet :: "int UVSetData list \<Rightarrow> string \<Rightarrow> int UVSetData" where
  "test_uvSet [] n = emptyUVSetData"
| "test_uvSet (d # ds) n = (if name d = n then d else test_uvSet ds n)"

fun test_call ::
  "((int, int, int, int) call \<Rightarrow> MStatus) \<Rightarrow> (int, int, int, int) call \<Rightarrow> test_mesh
     \<Rightarrow> MStatus \<times> test_mesh" where
  "test_call respond (Create nv np pts counts connects) m =
     (respond (Create nv np pts counts connects),
      if respond (Create nv np pts counts connects) = kSuccess
      then m\<lparr>d_points := pts, d_counts := counts, d_connects := connects,
             d_calls := d_calls m @ [Create nv np pts counts connects]\<rparr>
      else m\<lparr>d_calls := d_calls m @ [Create nv np pts counts connects]\<rparr>)"
| "test_call respond (CreateInPlace nv np pts counts connects) m =
     (respond (CreateInPlace nv np pts counts connects),
      if respond (CreateInPlace nv np pts counts connects) = kSuccess
      then m\<lparr>d_points := pts, d_counts := counts, d_connects := connects,
             d_calls := d_calls m @ [CreateInPlace nv np pts counts connects]\<rparr>
      else m\<lparr>d_calls := d_calls m @ [CreateInPlace nv np pts counts connects]\<rparr>)"
| "test_call respond c m = (respond c, m\<lparr>d_calls := d_calls m @ [c]\<rparr>)"

definition test_store ::
  "((int, int, int, int) call \<Rightarrow> MStatus) \<Rightarrow> (test_mesh, int, int, int, int) store" where
  "test_store respond =
     \<lparr>fn_numVertices = (\<lambda>m. int (length (d_points m))),
      fn_numPolygons = (\<lambda>m. int (length (d_counts m))),
      fn_getPoints = (\<lambda>m. (kSuccess, d_points m)),
      fn_getVertices = (\<lambda>m. (kSuccess, d_counts m, d_connects m)),
      fn_polygons = d_normals,
      fn_getNormalIds = d_normalIds,
      fn_isNormalLocked = (\<lambda>m i. i \<in> set (d_locked m)),
      fn_edges = d_edges,
      fn_numUVSets = (\<lambda>m. length (d_uvSets m)),
      fn_getUVSetNames = (\<lambda>m. map name (d_uvSets m)),
      fn_getUVs = (\<lambda>m n. (d_uvStatus m, uArray (test_uvSet (d_uvSets m) n),
                               vArray (test_uvSet (d_uvSets m) n))),
      fn_getAssignedUVs = (\<lambda>m n. (kSuccess, uvCounts (test_uvSet (d_uvSets m) n),
                                     uvIds (test_uvSet (d_uvSets m) n))),
      fn_setCast = (\<lambda>p. p),
      fn_call = test_call respond,
      uninit_int = (\<lambda>i. 0),
      uninit_point = (\<lambda>i. 0),
      uninit_vector = (\<lambda>i. 0),
      origin_float = 0\<rparr>"

text \<open>
  Four ways the store can answer the mutating calls: every call succeeds; \<open>createUVSet\<close>
  fails; \<open>lockFaceVertexNormals\<close> fails; \<open>create\<close> fails.
\<close>

definition succeed :: "('p, 'fp, 'n, 'u) call \<Rightarrow> MStatus" where
  "succeed c = kSuccess"

definition refuse_createUVSet :: "('p, 'fp, 'n, 'u) call \<Rightarrow> MStatus" where
  "refuse_createUVSet c = (if is_CreateUVSet c then kFailure else kSuccess)"

definition refuse_lock :: "('p, 'fp, 'n, 'u) call \<Rightarrow> MStatus" where
  "refuse_lock c = (case c of LockFaceVertexNormals fl vl \<Rightarrow> kFailure | _ \<Rightarrow> kSuccess)"

definition refuse_create :: "('p, 'fp, 'n, 'u) call \<Rightarrow> MStatus" where
  "refuse_create c =
     (case c of Create nv np pts counts connects \<Rightarrow> kInsufficientMemory | _ \<Rightarrow> kSuccess)"

text \<open>A store whose \<open>getUVs\<close> query fails for the UV set of one name.\<close>

definition refuse_getUVs ::
  "string \<Rightarrow> ('m, 'p, 'fp, 'n, 'u) store \<Rightarrow> ('m, 'p, 'fp, 'n, 'u) store" where
  "refuse_getUVs n api =
     api\<lparr>fn_getUVs := (\<lambda>m n'. if n' = n then (kFailure, [], []) else fn_getUVs api m n')\<rparr>"

text \<open>
  The tetrahedron of the spec's scenario (4 vertices, 4 triangles): point \<open>i\<close> has payload
  \<open>10 + i\<close>. Its point order \<open>[2, 0, 3, 1]\<close> has the inverse \<open>[1, 3, 0, 2]\<close>.
\<close>

definition tetra :: test_mesh where
  "tetra =
     \<lparr>d_points = [10, 11, 12, 13],
      d_counts = [3, 3, 3, 3],
      d_connects = [0, 1, 2, 0, 3, 1, 0, 2, 3, 1, 3, 2],
      d_normals = [[100, 101, 102], [103, 104, 105], [106, 107, 108], [109, 110, 111]],
      d_normalIds = (kSuccess, [3, 3, 3, 3], [0, 1, 2, 3, 4, 5, 6, 7, 8, 9, 10, 11]),
      d_locked = [],
      d_edges = [(0, 1, True), (1, 2, True), (2, 0, True), (0, 3, False), (3, 1, False),
                 (2, 3, False)],
      d_uvStatus = kSuccess,
      d_uvSets = [],
      d_calls = []\<rparr>"

text \<open>
  The single quad of the spec's scenario: corners 0 and 2 locked, two UV sets, the second
  one not the default set.
\<close>

definition quad :: test_mesh where
  "quad =
     \<lparr>d_points = [10, 11, 12, 13],
      d_counts = [4],
      d_connects = [0, 1, 2, 3],
      d_normals = [[100, 101, 102, 103]],
      d_normalIds = (kSuccess, [4], [0, 1, 2, 3]),
      d_locked = [0, 2],
      d_edges = [(0, 1, True), (1, 2, False), (2, 3, True), (3, 0, False)],
      d_uvStatus = kSuccess,
      d_uvSets = [\<lparr>name = ''map1'', uArray = [1, 2], vArray = [3, 4],
                    uvCounts = [4], uvIds = [0, 1, 0, 1]\<rparr>,
                  \<lparr>name = ''uv2'', uArray = [5], vArray = [6],
                    uvCounts = [4], uvIds = [0, 0, 0, 0]\<rparr>],
      d_calls = []\<rparr>"

section \<open>Machine integers and array accesses\<close>

lemma to_int_small: "n < 2 ^ 31 \<Longrightarrow> to_int n = int n"
  by (simp add: to_int_def)

lemma uint_of_small: "0 \<le> v \<Longrightarrow> v < 2 ^ 32 \<Longrightarrow> uint_of v = nat v"
  by (simp add: uint_of_def)

lemma length_setLength: "length (setLength u n xs) = n"
  by (simp add: setLength_def)

text \<open>Rules for running the functions on concrete inputs with the simplifier.\<close>

lemma list_update_numeral: "(x # xs)[numeral k := y] = x # xs[pred_numeral k := y]"
  by (simp add: numeral_eq_Suc)

lemma replicate_numeral: "replicate (numeral k) x = x # replicate (pred_numeral k) x"
  by (simp add: numeral_eq_Suc)

lemma to_int_eval: "n < 2147483648 \<Longrightarrow> to_int n = int n"
  by (simp add: to_int_def)

lemma test_store_points [simp]:
  "fn_getPoints (test_store r) m = (kSuccess, d_points m)"
  "fn_numVertices (test_store r) m = int (length (d_points m))"
  by (simp_all add: test_store_def)

lemmas run_simps =
  at_def put_def setLength_def uint_of_def to_int_eval Let_def list_update_numeral
  replicate_numeral upt_rec
  getPoints_loop.simps getPoints_def getPolys_loop.simps getPolys_def
  getFaceVertexList_inner.simps getFaceVertexList_outer.simps getFaceVertexList_def
  getFaceVertexNormals_inner.simps getFaceVertexNormals_def
  setFaceVertexNormals_def getFaceVertexLocks_loop.simps getFaceVertexLocks_def
  setFaceVertexLocks_loop.simps setFaceVertexLocks_def
  twoIntKey_def emplace_def subscript_def getEdgeSmoothing_def setEdgeSmoothing_def
  resize_def getUVs_names.simps getUVs_def emptyUVSetData_def
  reorderMesh_cast.simps reorderMesh_create_def reorderMesh_apply_def reorderMesh_extract_def
  reorderMesh_def
  test_store_def succeed_def refuse_createUVSet_def refuse_lock_def

section \<open>The face-vertex enumeration\<close>

lemma take_upd_block:
  assumes "idx < length xs"
  shows "take (Suc idx) (xs[idx := x]) @ ys @ drop (Suc idx + n) (xs[idx := x])
       = take idx xs @ (x # ys) @ drop (idx + Suc n) xs"
  using assms by (simp add: take_Suc_conv_app_nth)

lemma splice_splice:
  assumes "length ys = n" and "idx + n + m \<le> length xs"
  shows "take (idx + n) (take idx xs @ ys @ drop (idx + n) xs) @ zs
           @ drop (idx + n + m) (take idx xs @ ys @ drop (idx + n) xs)
       = take idx xs @ (ys @ zs) @ drop (idx + (n + m)) xs"
  using assms by (simp add: ac_simps)

text \<open>
  One face: the inner loop writes the face id \<open>n\<close> times into \<open>faceList\<close> from position
  \<open>idx\<close> on, and copies the matching stretch of \<open>polyConnects\<close> into \<open>vertexList\<close>.
\<close>

lemma getFaceVertexList_inner_block:
  assumes "i < length polyCounts"
    and "n = nat (polyCounts ! i - j)"
    and "idx + n \<le> length faceList" and "idx + n \<le> length vertexList"
    and "idx + n \<le> length polyConnects"
  shows "getFaceVertexList_inner polyCounts polyConnects i j idx faceList vertexList =
     Some (idx + n,
           take idx faceList @ replicate n (to_int i) @ drop (idx + n) faceList,
           take idx vertexList @ take n (drop idx polyConnects) @ drop (idx + n) vertexList)"
  using assms
proof (induction n arbitrary: j idx faceList vertexList)
  case 0
  then have "\<not> j < polyCounts ! i" by simp
  with 0 show ?case
    by (subst getFaceVertexList_inner.simps) (simp add: at_def)
next
  case (Suc n)
  let ?fl = "faceList[idx := to_int i]" and ?vl = "vertexList[idx := polyConnects ! idx]"
  from Suc.prems have lt: "j < polyCounts ! i" and n: "n = nat (polyCounts ! i - (j + 1))"
    by linarith+
  from Suc.prems have b: "idx < length faceList" "idx < length vertexList"
    "idx < length polyConnects"
    by simp_all
  have "getFaceVertexList_inner polyCounts polyConnects i j idx faceList vertexList =
        getFaceVertexList_inner polyCounts polyConnects i (j + 1) (Suc idx) ?fl ?vl"
    using lt b Suc.prems(1)
    by (subst getFaceVertexList_inner.simps) (simp add: at_def put_def)
  also have "\<dots> = Some (Suc idx + n,
           take (Suc idx) ?fl @ replicate n (to_int i) @ drop (Suc idx + n) ?fl,
           take (Suc idx) ?vl @ take n (drop (Suc idx) polyConnects) @ drop (Suc idx + n) ?vl)"
    using Suc.prems by (intro Suc.IH) (simp_all add: n)
  also have "take (Suc idx) ?fl @ replicate n (to_int i) @ drop (Suc idx + n) ?fl =
      take idx faceList @ replicate (Suc n) (to_int i) @ drop (idx + Suc n) faceList"
    using take_upd_block [OF b(1), of "to_int i" "replicate n (to_int i)" n] by simp
  also have "take (Suc idx) ?vl @ take n (drop (Suc idx) polyConnects) @ drop (Suc idx + n) ?vl =
      take idx vertexList @ take (Suc n) (drop idx polyConnects) @ drop (idx + Suc n) vertexList"
    using take_upd_block [OF b(2), of "polyConnects ! idx" "take n (drop (Suc idx) polyConnects)" n]
      b(3)
    by (simp add: Cons_nth_drop_Suc [symmetric])
  finally show ?case by simp
qed

text \<open>The faces from \<open>i\<close> on: \<open>S\<close> is the number of corners they have.\<close>

lemma getFaceVertexList_outer_blocks:
  assumes "numPolys \<le> length polyCounts"
    and "S = (\<Sum>f\<leftarrow>[i..<numPolys]. nat (polyCounts ! f))"
    and "idx + S \<le> length faceList" and "idx + S \<le> length vertexList"
    and "idx + S \<le> length polyConnects"
  shows "getFaceVertexList_outer polyCounts polyConnects numPolys i idx faceList vertexList =
     Some (take idx faceList
             @ concat (map (\<lambda>f. replicate (nat (polyCounts ! f)) (to_int f)) [i..<numPolys])
             @ drop (idx + S) faceList,
           take idx vertexList @ take S (drop idx polyConnects) @ drop (idx + S) vertexList)"
  using assms
proof (induction "numPolys - i" arbitrary: i idx faceList vertexList S)
  case 0
  then show ?case
    by (subst getFaceVertexList_outer.simps) simp
next
  case (Suc k)
  let ?blk = "\<lambda>f. replicate (nat (polyCounts ! f)) (to_int f)"
  from Suc have lt: "i < numPolys" and k: "k = numPolys - Suc i" by linarith+
  define n where "n = nat (polyCounts ! i)"
  define S' where "S' = (\<Sum>f\<leftarrow>[Suc i..<numPolys]. nat (polyCounts ! f))"
  have S: "S = n + S'"
    using lt by (simp add: Suc.prems(2) upt_conv_Cons n_def S'_def)
  let ?fl = "take idx faceList @ replicate n (to_int i) @ drop (idx + n) faceList"
  let ?vl = "take idx vertexList @ take n (drop idx polyConnects) @ drop (idx + n) vertexList"
  have inner: "getFaceVertexList_inner polyCounts polyConnects i 0 idx faceList vertexList =
      Some (idx + n, ?fl, ?vl)"
    using Suc.prems lt S by (intro getFaceVertexList_inner_block) (simp_all add: n_def)
  have bf: "idx + n + S' \<le> length faceList" and bv: "idx + n + S' \<le> length vertexList"
    and bc: "idx + n + S' \<le> length polyConnects"
    using Suc.prems(3-5) S by simp_all
  have len: "length ?fl = length faceList" "length ?vl = length vertexList"
    using Suc.prems S by simp_all
  have "getFaceVertexList_outer polyCounts polyConnects numPolys i idx faceList vertexList =
        getFaceVertexList_outer polyCounts polyConnects numPolys (Suc i) (idx + n) ?fl ?vl"
    using lt by (subst getFaceVertexList_outer.simps) (simp add: inner)
  also have "\<dots> = Some (take (idx + n) ?fl @ concat (map ?blk [Suc i..<numPolys])
             @ drop (idx + n + S') ?fl,
           take (idx + n) ?vl @ take S' (drop (idx + n) polyConnects) @ drop (idx + n + S') ?vl)"
    using Suc.prems S len by (intro Suc.hyps(1)) (simp_all add: k S'_def)
  also have "take (idx + n) ?fl @ concat (map ?blk [Suc i..<numPolys])
             @ drop (idx + n + S') ?fl =
       take idx faceList @ concat (map ?blk [i..<numPolys]) @ drop (idx + S) faceList"
    using splice_splice [OF _ bf, of "replicate n (to_int i)"] lt
    by (simp add: upt_conv_Cons n_def [symmetric] S)
  also have "take (idx + n) ?vl @ take S' (drop (idx + n) polyConnects) @ drop (idx + n + S') ?vl =
       take idx vertexList @ take S (drop idx polyConnects) @ drop (idx + S) vertexList"
  proof -
    have "take n (drop idx polyConnects) @ take S' (drop (idx + n) polyConnects) =
        take (n + S') (drop idx polyConnects)"
      unfolding take_add drop_drop by (simp add: add.commute)
    moreover have "length (take n (drop idx polyConnects)) = n"
      using bc by simp
    ultimately show ?thesis
      using splice_splice [OF _ bv, of "take n (drop idx polyConnects)"
          "take S' (drop (idx + n) polyConnects)"]
      by (simp only: S)
  qed
  finally show ?case by simp
qed

lemma getFaceVertexList_inner_length:
  "getFaceVertexList_inner polyCounts polyConnects i j idx faceList vertexList
     = Some (idx', faceList', vertexList') \<Longrightarrow>
   length faceList' = length faceList \<and> length vertexList' = length vertexList"
proof (induction polyCounts polyConnects i j idx faceList vertexList
    rule: getFaceVertexList_inner.induct)
  case (1 polyCounts polyConnects i j idx faceList vertexList)
  from "1.prems" show ?case
    by (subst (asm) getFaceVertexList_inner.simps)
       (auto simp: put_def split: option.splits if_splits dest!: "1.IH" [rotated -1])
qed

lemma getFaceVertexList_outer_length:
  "getFaceVertexList_outer polyCounts polyConnects numPolys i idx faceList vertexList
     = Some (faceList', vertexList') \<Longrightarrow>
   length faceList' = length faceList \<and> length vertexList' = length vertexList"
proof (induction polyCounts polyConnects numPolys i idx faceList vertexList
    rule: getFaceVertexList_outer.induct)
  case (1 polyCounts polyConnects numPolys i idx faceList vertexList)
  show ?case
  proof (cases "i < numPolys")
    case False
    with "1.prems" show ?thesis
      by (subst (asm) getFaceVertexList_outer.simps) simp
  next
    case True
    with "1.prems" obtain idx1 fl1 vl1 where
      inner: "getFaceVertexList_inner polyCounts polyConnects i 0 idx faceList vertexList
                = Some (idx1, fl1, vl1)"
      and rest: "getFaceVertexList_outer polyCounts polyConnects numPolys (Suc i) idx1 fl1 vl1
                = Some (faceList', vertexList')"
      by (subst (asm) getFaceVertexList_outer.simps) (auto split: option.splits)
    from "1.IH" [OF True inner refl refl rest] getFaceVertexList_inner_length [OF inner]
    show ?thesis by simp
  qed
qed

lemma getFaceVertexList_length:
  assumes "getFaceVertexList u polyCounts polyConnects faceList vertexList
     = Some (faceList', vertexList')"
  shows "length faceList' = length polyConnects" and "length vertexList' = length polyConnects"
  using getFaceVertexList_outer_length [OF assms [unfolded getFaceVertexList_def Let_def]]
  by (simp_all add: length_setLength)

lemma sum_list_nat_counts:
  "\<forall>c\<in>set cs. 0 \<le> c \<Longrightarrow> (\<Sum>c\<leftarrow>cs. nat c) = nat (sum_list cs)"
  by (induction cs) (simp_all add: nat_add_distrib sum_list_nonneg)

lemma sum_list_nth_upt: "(\<Sum>f\<leftarrow>[0..<length cs]. g (cs ! f)) = (\<Sum>c\<leftarrow>cs. g c)"
  by (simp add: map_nth flip: map_map [unfolded comp_def])

text \<open>
  C8. Corner-count invariance of the face-vertex enumeration: when the counts are vertex
  counts (none negative) and \<open>len(connectivity) = sum(counts)\<close>, \<open>getFaceVertexList\<close>
  returns \<open>faceList\<close> and \<open>vertexList\<close> both of length \<open>sum(counts)\<close>; \<open>faceList\<close> is face 0
  repeated \<open>counts[0]\<close> times, then face 1 repeated \<open>counts[1]\<close> times, and so on, and
  \<open>vertexList\<close> is the connectivity. Face ids are stored as \<open>int\<close>, hence at most \<open>2^31\<close>
  faces.
\<close>

theorem getFaceVertexList_corner_count:
  assumes "\<forall>c\<in>set polyCounts. 0 \<le> c"
    and "int (length polyConnects) = sum_list polyCounts"
    and "length polyCounts \<le> 2 ^ 31"
  shows "\<exists>faceList' vertexList'.
      getFaceVertexList u polyCounts polyConnects faceList vertexList = Some (faceList', vertexList')
    \<and> length faceList' = nat (sum_list polyCounts)
    \<and> length vertexList' = nat (sum_list polyCounts)
    \<and> faceList' = concat (map (\<lambda>f. replicate (nat (polyCounts ! f)) (int f))
                             [0..<length polyCounts])
    \<and> vertexList' = polyConnects"
proof -
  let ?n = "length polyConnects"
  let ?fl = "setLength u ?n faceList" and ?vl = "setLength u ?n vertexList"
  have S: "?n = (\<Sum>f\<leftarrow>[0..<length polyCounts]. nat (polyCounts ! f))"
    using assms(1,2) by (simp add: sum_list_nth_upt sum_list_nat_counts)
  have len: "length ?fl = ?n" "length ?vl = ?n"
    by (simp_all add: setLength_def)
  have "getFaceVertexList_outer polyCounts polyConnects (length polyCounts) 0 0 ?fl ?vl =
     Some (take 0 ?fl
             @ concat (map (\<lambda>f. replicate (nat (polyCounts ! f)) (to_int f))
                 [0..<length polyCounts])
             @ drop (0 + ?n) ?fl,
           take 0 ?vl @ take ?n (drop 0 polyConnects) @ drop (0 + ?n) ?vl)"
    using S len by (intro getFaceVertexList_outer_blocks) simp_all
  moreover have "map (\<lambda>f. replicate (nat (polyCounts ! f)) (to_int f)) [0..<length polyCounts] =
      map (\<lambda>f. replicate (nat (polyCounts ! f)) (int f)) [0..<length polyCounts]"
    using assms(3) by (simp add: to_int_small)
  moreover have "length (concat (map (\<lambda>f. replicate (nat (polyCounts ! f)) (int f))
      [0..<length polyCounts])) = ?n"
    by (simp add: length_concat comp_def S)
  ultimately show ?thesis
    using len assms(2) by (simp add: getFaceVertexList_def Let_def)
qed

theorem getFaceVertexList_corner_count_witness:
  "getFaceVertexList (\<lambda>_. 0) [3, 1] [5, 6, 7, 8] [] [] = Some ([0, 0, 0, 1], [5, 6, 7, 8])"
  using getFaceVertexList_corner_count [of "[3, 1]" "[5, 6, 7, 8]" "\<lambda>_. 0" "[]" "[]"]
  by (simp add: upt_rec numeral_3_eq_3)

section \<open>The point remap\<close>

text \<open>
  What the loop of \<open>getPoints\<close> leaves in \<open>outPoints\<close> when every index it writes is in
  range: the last write to a cell wins, and a cell no entry maps to keeps its content.
\<close>

lemma getPoints_loop_writes:
  assumes "numVertices \<le> length inPoints" and "numVertices \<le> length pointOrder"
    and "\<forall>j. i \<le> j \<and> j < numVertices \<longrightarrow> uint_of (pointOrder ! j) < length outPoints"
  shows "\<exists>out. getPoints_loop inPoints pointOrder numVertices i outPoints = Some out
      \<and> length out = length outPoints
      \<and> (\<forall>j. i \<le> j \<and> j < numVertices
            \<and> (\<forall>j'. j < j' \<and> j' < numVertices
                   \<longrightarrow> uint_of (pointOrder ! j') \<noteq> uint_of (pointOrder ! j))
            \<longrightarrow> out ! uint_of (pointOrder ! j) = inPoints ! j)
      \<and> (\<forall>k. (\<forall>j. i \<le> j \<and> j < numVertices \<longrightarrow> uint_of (pointOrder ! j) \<noteq> k)
            \<longrightarrow> out ! k = outPoints ! k)"
  using assms
proof (induction "numVertices - i" arbitrary: i outPoints)
  case 0
  then show ?case
    by (subst getPoints_loop.simps) auto
next
  case (Suc n)
  then have lt: "i < numVertices" and n: "n = numVertices - Suc i" by linarith+
  let ?k = "uint_of (pointOrder ! i)"
  let ?out1 = "outPoints[?k := inPoints ! i]"
  have k: "?k < length outPoints" using Suc.prems(3) lt by simp
  have step: "getPoints_loop inPoints pointOrder numVertices i outPoints =
      getPoints_loop inPoints pointOrder numVertices (Suc i) ?out1"
    using lt k Suc.prems(1,2)
    by (subst getPoints_loop.simps) (simp add: at_def put_def)
  have "\<forall>j. Suc i \<le> j \<and> j < numVertices \<longrightarrow> uint_of (pointOrder ! j) < length ?out1"
    using Suc.prems(3) by simp
  from Suc.hyps(1) [OF n Suc.prems(1,2) this]
  obtain out where out: "getPoints_loop inPoints pointOrder numVertices (Suc i) ?out1 = Some out"
    and len: "length out = length ?out1"
    and later: "\<And>j. Suc i \<le> j \<Longrightarrow> j < numVertices \<Longrightarrow>
          (\<forall>j'. j < j' \<and> j' < numVertices
               \<longrightarrow> uint_of (pointOrder ! j') \<noteq> uint_of (pointOrder ! j)) \<Longrightarrow>
          out ! uint_of (pointOrder ! j) = inPoints ! j"
    and keep: "\<And>k. (\<forall>j. Suc i \<le> j \<and> j < numVertices \<longrightarrow> uint_of (pointOrder ! j) \<noteq> k) \<Longrightarrow>
          out ! k = ?out1 ! k"
    by blast
  have a: "out ! uint_of (pointOrder ! j) = inPoints ! j"
    if "i \<le> j" "j < numVertices"
      "\<forall>j'. j < j' \<and> j' < numVertices \<longrightarrow> uint_of (pointOrder ! j') \<noteq> uint_of (pointOrder ! j)"
    for j
  proof (cases "j = i")
    case True
    with that have "\<forall>j'. Suc i \<le> j' \<and> j' < numVertices \<longrightarrow> uint_of (pointOrder ! j') \<noteq> ?k"
      by auto
    from keep [OF this] k True show ?thesis by simp
  next
    case False
    with that show ?thesis by (intro later) auto
  qed
  have b: "out ! k' = outPoints ! k'"
    if "\<forall>j. i \<le> j \<and> j < numVertices \<longrightarrow> uint_of (pointOrder ! j) \<noteq> k'" for k'
  proof -
    from that lt have "k' \<noteq> ?k" by auto
    moreover from that have "\<forall>j. Suc i \<le> j \<and> j < numVertices \<longrightarrow> uint_of (pointOrder ! j) \<noteq> k'"
      by auto
    from keep [OF this] have "out ! k' = ?out1 ! k'" .
    ultimately show ?thesis by simp
  qed
  show ?case
    unfolding step using out len a b by auto
qed

lemma getPoints_in_range:
  assumes pts: "fn_getPoints api mesh = (st, targetPoints)"
    and nv: "fn_numVertices api mesh = int (length targetPoints)"
    and small: "length targetPoints < 2 ^ 31"
    and len: "length targetPoints \<le> length pointOrder"
    and rng: "\<forall>i<length targetPoints. 0 \<le> pointOrder ! i \<and> pointOrder ! i < int (length targetPoints)"
  shows "\<exists>out. getPoints api mesh pointOrder outPoints = Some (kSuccess, out)
      \<and> length out = length targetPoints
      \<and> (\<forall>i<length targetPoints.
            (\<forall>j. i < j \<and> j < length targetPoints \<longrightarrow> pointOrder ! j \<noteq> pointOrder ! i)
            \<longrightarrow> out ! nat (pointOrder ! i) = targetPoints ! i)
      \<and> (\<forall>k<length targetPoints. int k \<notin> set (take (length targetPoints) pointOrder)
            \<longrightarrow> out ! k = setLength (uninit_point api) (length targetPoints) outPoints ! k)"
proof -
  let ?N = "length targetPoints"
  let ?out0 = "setLength (uninit_point api) ?N outPoints"
  have N: "uint_of (fn_numVertices api mesh) = ?N"
    using small by (simp add: nv uint_of_def)
  have u: "uint_of (pointOrder ! i) = nat (pointOrder ! i)" if "i < ?N" for i
    using rng that small by (intro uint_of_small) auto
  have "\<forall>j. 0 \<le> j \<and> j < ?N \<longrightarrow> uint_of (pointOrder ! j) < length ?out0"
    using rng by (auto simp: u length_setLength)
  from getPoints_loop_writes [OF order_refl len this]
  obtain out where out: "getPoints_loop targetPoints pointOrder ?N 0 ?out0 = Some out"
    and lout: "length out = ?N"
    and w: "\<And>j. j < ?N \<Longrightarrow>
          (\<forall>j'. j < j' \<and> j' < ?N \<longrightarrow> uint_of (pointOrder ! j') \<noteq> uint_of (pointOrder ! j)) \<Longrightarrow>
          out ! uint_of (pointOrder ! j) = targetPoints ! j"
    and keep: "\<And>k. (\<forall>j. 0 \<le> j \<and> j < ?N \<longrightarrow> uint_of (pointOrder ! j) \<noteq> k) \<Longrightarrow>
          out ! k = ?out0 ! k"
    by (auto simp: length_setLength)
  have a: "out ! nat (pointOrder ! i) = targetPoints ! i"
    if "i < ?N" "\<forall>j. i < j \<and> j < ?N \<longrightarrow> pointOrder ! j \<noteq> pointOrder ! i" for i
  proof -
    have "uint_of (pointOrder ! j') \<noteq> uint_of (pointOrder ! i)" if j': "i < j'" "j' < ?N" for j'
    proof -
      from that \<open>i < ?N\<close> rng have "0 \<le> pointOrder ! i" "0 \<le> pointOrder ! j'" by auto
      moreover from j' \<open>\<forall>j. i < j \<and> j < ?N \<longrightarrow> pointOrder ! j \<noteq> pointOrder ! i\<close>
      have "pointOrder ! j' \<noteq> pointOrder ! i" by simp
      ultimately have "nat (pointOrder ! j') \<noteq> nat (pointOrder ! i)"
        by simp
      then show ?thesis using j' \<open>i < ?N\<close> by (simp add: u)
    qed
    then have "\<forall>j'. i < j' \<and> j' < ?N \<longrightarrow> uint_of (pointOrder ! j') \<noteq> uint_of (pointOrder ! i)"
      by simp
    from w [OF that(1) this] that(1) show ?thesis by (simp add: u)
  qed
  have b: "out ! k = ?out0 ! k" if "k < ?N" "int k \<notin> set (take ?N pointOrder)" for k
  proof -
    have "uint_of (pointOrder ! j) \<noteq> k" if j: "j < ?N" for j
    proof
      assume "uint_of (pointOrder ! j) = k"
      with j rng have "pointOrder ! j = int k" by (auto simp: u)
      moreover have "pointOrder ! j \<in> set (take ?N pointOrder)"
        using j len by (auto simp: in_set_conv_nth intro!: exI [of _ j])
      ultimately show False using \<open>int k \<notin> set (take ?N pointOrder)\<close> by simp
    qed
    then show ?thesis by (intro keep) auto
  qed
  show ?thesis
    using out lout a b by (simp add: getPoints_def Let_def N pts)
qed

lemma is_bijection_onto:
  assumes "is_bijection pointOrder n" and "k < n"
  shows "\<exists>i<n. pointOrder ! i = int k"
proof -
  from assms(1) have len: "length pointOrder = n" and d: "distinct pointOrder"
    and rng: "\<forall>v\<in>set pointOrder. 0 \<le> v \<and> v < int n"
    by (simp_all add: is_bijection_def)
  have sub: "set pointOrder \<subseteq> int ` {0..<n}"
  proof
    fix v assume "v \<in> set pointOrder"
    with rng have "0 \<le> v" "v < int n" by auto
    then have "v = int (nat v)" "nat v < n" by simp_all
    then show "v \<in> int ` {0..<n}" by (metis atLeastLessThan_iff image_eqI zero_le)
  qed
  have "card (set pointOrder) = n" using d len by (simp add: distinct_card)
  moreover have "card (int ` {0..<n}) = n" by (simp add: card_image)
  ultimately have "set pointOrder = int ` {0..<n}"
    using sub by (intro card_subset_eq) simp_all
  with assms(2) have "int k \<in> set pointOrder" by simp
  then show ?thesis by (simp add: in_set_conv_nth len)
qed

lemma getPoints_bijection:
  assumes pts: "fn_getPoints api mesh = (st, targetPoints)"
    and nv: "fn_numVertices api mesh = int (length targetPoints)"
    and small: "length targetPoints < 2 ^ 31"
    and bij: "is_bijection pointOrder (length targetPoints)"
  shows "\<exists>out. getPoints api mesh pointOrder outPoints = Some (kSuccess, out)
      \<and> length out = length targetPoints
      \<and> (\<forall>i<length targetPoints. out ! nat (pointOrder ! i) = targetPoints ! i)"
proof -
  from bij have len: "length pointOrder = length targetPoints" and d: "distinct pointOrder"
    and rng: "\<forall>i<length targetPoints. 0 \<le> pointOrder ! i \<and> pointOrder ! i < int (length targetPoints)"
    by (auto simp: is_bijection_def)
  have "pointOrder ! j \<noteq> pointOrder ! i" if "i < j" "j < length targetPoints" for i j
    using that d len by (simp add: nth_eq_iff_index_eq)
  with getPoints_in_range [OF pts nv small _ rng, of outPoints] len show ?thesis
    by auto
qed

text \<open>
  C1 (as amended). Point remap contract: when \<open>pointOrder\<close> is a bijection over
  \<open>[0, len(targetPoints))\<close>, \<open>getPoints\<close> returns \<open>kSuccess\<close> and an array of the same
  length with \<open>outPoints[pointOrder[i]] = targetPoints[i]\<close> for every \<open>i\<close>. The store reports
  the vertex count as an \<open>int\<close>, hence fewer than \<open>2^31\<close> points.
\<close>

theorem getPoints_remap:
  assumes "fn_getPoints api mesh = (st, targetPoints)"
    and "fn_numVertices api mesh = int (length targetPoints)"
    and "length targetPoints < 2 ^ 31"
    and "is_bijection pointOrder (length targetPoints)"
  shows "\<exists>out. getPoints api mesh pointOrder outPoints = Some (kSuccess, out)
      \<and> length out = length targetPoints
      \<and> (\<forall>i<length targetPoints. out ! nat (pointOrder ! i) = targetPoints ! i)"
  using assms by (rule getPoints_bijection)

text \<open>
  The contract on the tetrahedron with point order \<open>[2, 0, 3, 1]\<close>: old point 1 (payload 11)
  lands at new index 0, old point 3 (payload 13) at new index 1, old point 0 at new index 2
  and old point 2 at new index 3.
\<close>

theorem getPoints_remap_witness:
  "\<exists>out. getPoints (test_store succeed) tetra [2, 0, 3, 1] [] = Some (kSuccess, out)
     \<and> out = [11, 13, 10, 12]"
proof -
  have bij: "is_bijection [2, 0, 3, 1] (length (d_points tetra))"
    by (simp add: is_bijection_def tetra_def)
  from getPoints_remap [of "test_store succeed" tetra kSuccess "d_points tetra" "[2, 0, 3, 1]" "[]"]
  obtain out where out: "getPoints (test_store succeed) tetra [2, 0, 3, 1] [] = Some (kSuccess, out)"
    and len: "length out = 4"
    and nth: "\<forall>i<4. out ! nat ([2, 0, 3, 1] ! i) = d_points tetra ! i"
    using bij by (auto simp: tetra_def)
  from nth [rule_format, of 0] nth [rule_format, of 1] nth [rule_format, of 2]
    nth [rule_format, of 3]
  have "out ! 2 = 10" "out ! 0 = 11" "out ! 3 = 12" "out ! 1 = 13"
    by (simp_all add: tetra_def)
  with len have "out = [11, 13, 10, 12]"
    by (intro nth_equalityI) (auto simp: less_Suc_eq numeral_eq_Suc)
  with out show ?thesis by simp
qed

text \<open>
  C1 as the spec words it has the instance ``old point 2 lands at new index 1''. It does
  not hold: new index 1 holds old point 3, and old point 2 (payload 12) is at new index 3.
\<close>

theorem getPoints_tetra_counterexample:
  "getPoints (test_store succeed) tetra [2, 0, 3, 1] [] = Some (kSuccess, [11, 13, 10, 12])
   \<and> d_points tetra ! 2 = 12
   \<and> [11, 13, 10, 12] ! 1 \<noteq> (12 :: int)"
  by (simp add: run_simps tetra_def)

lemma is_inverse_bijection:
  assumes bij: "is_bijection pointOrder n" and inv: "is_inverse pointOrder inverseOrder"
  shows "is_bijection inverseOrder n"
    and "\<forall>i<n. inverseOrder ! nat (pointOrder ! i) = int i"
    and "\<forall>k<n. pointOrder ! nat (inverseOrder ! k) = int k"
proof -
  from bij have len: "length pointOrder = n"
    and rng: "\<forall>i<n. 0 \<le> pointOrder ! i \<and> pointOrder ! i < int n"
    by (auto simp: is_bijection_def)
  from inv len have ilen: "length inverseOrder = n"
    and a: "\<forall>i<n. inverseOrder ! nat (pointOrder ! i) = int i"
    by (auto simp: is_inverse_def)
  from a show "\<forall>i<n. inverseOrder ! nat (pointOrder ! i) = int i" .
  have onto: "\<exists>i<n. pointOrder ! i = int k" if "k < n" for k
    using bij that by (rule is_bijection_onto)
  show b: "\<forall>k<n. pointOrder ! nat (inverseOrder ! k) = int k"
  proof (intro allI impI)
    fix k assume "k < n"
    with onto obtain i where "i < n" "pointOrder ! i = int k" by blast
    with a show "pointOrder ! nat (inverseOrder ! k) = int k" by force
  qed
  have r: "0 \<le> inverseOrder ! k \<and> inverseOrder ! k < int n" if "k < n" for k
  proof -
    from onto [OF that] obtain i where "i < n" "pointOrder ! i = int k" by blast
    with a show ?thesis by force
  qed
  have "distinct inverseOrder"
    unfolding distinct_conv_nth
  proof (intro allI impI)
    fix k k' assume k: "k < length inverseOrder" "k' < length inverseOrder" "k \<noteq> k'"
    show "inverseOrder ! k \<noteq> inverseOrder ! k'"
    proof
      assume "inverseOrder ! k = inverseOrder ! k'"
      then have "pointOrder ! nat (inverseOrder ! k) = pointOrder ! nat (inverseOrder ! k')"
        by simp
      with b k ilen show False by simp
    qed
  qed
  with r ilen show "is_bijection inverseOrder n"
    by (auto simp: is_bijection_def in_set_conv_nth)
qed

text \<open>
  C7. Bijection round-trip: remapping the points of a mesh with \<open>pointOrder\<close>, and then
  remapping the result (the points of a second mesh) with the inverse permutation, gives
  the original point sequence back.
\<close>

theorem getPoints_round_trip:
  assumes pts: "fn_getPoints api mesh = (st, targetPoints)"
    and nv: "fn_numVertices api mesh = int (length targetPoints)"
    and small: "length targetPoints < 2 ^ 31"
    and bij: "is_bijection pointOrder (length targetPoints)"
    and inv: "is_inverse pointOrder inverseOrder"
    and first: "getPoints api mesh pointOrder outPoints = Some (s, newPoints)"
    and pts': "fn_getPoints api mesh' = (st', newPoints)"
    and nv': "fn_numVertices api mesh' = int (length newPoints)"
  shows "getPoints api mesh' inverseOrder outPoints' = Some (kSuccess, targetPoints)"
proof -
  let ?N = "length targetPoints"
  from getPoints_bijection [OF pts nv small bij, of outPoints] first
  have len: "length newPoints = ?N"
    and moved: "\<forall>i<?N. newPoints ! nat (pointOrder ! i) = targetPoints ! i"
    by auto
  note I = is_inverse_bijection [OF bij inv]
  from getPoints_bijection [OF pts' nv', of inverseOrder outPoints'] I(1) small len
  obtain out where out: "getPoints api mesh' inverseOrder outPoints' = Some (kSuccess, out)"
    and lout: "length out = ?N"
    and inv_nth: "\<forall>k<?N. out ! nat (inverseOrder ! k) = newPoints ! k"
    by auto
  have "out ! i = targetPoints ! i" if "i < ?N" for i
  proof -
    from bij that have "pointOrder ! i \<in> set pointOrder"
      by (simp add: is_bijection_def)
    with bij have k: "nat (pointOrder ! i) < ?N"
      by (auto simp: is_bijection_def)
    with inv_nth have "out ! nat (inverseOrder ! nat (pointOrder ! i)) = newPoints ! nat (pointOrder ! i)"
      by simp
    with I(2) moved that show ?thesis by simp
  qed
  with lout have "out = targetPoints" by (intro nth_equalityI) simp_all
  with out show ?thesis by simp
qed

text \<open>The round trip on the tetrahedron: \<open>[2, 0, 3, 1]\<close>, then its inverse \<open>[1, 3, 0, 2]\<close>.\<close>

theorem getPoints_round_trip_witness:
  "getPoints (test_store succeed) tetra [2, 0, 3, 1] [] = Some (kSuccess, [11, 13, 10, 12])
   \<and> getPoints (test_store succeed) (tetra\<lparr>d_points := [11, 13, 10, 12]\<rparr>) [1, 3, 0, 2] []
       = Some (kSuccess, [10, 11, 12, 13])"
proof -
  let ?api = "test_store succeed :: (test_mesh, int, int, int, int) store"
  let ?mesh' = "tetra\<lparr>d_points := [11, 13, 10, 12]\<rparr>"
  have p: "fn_getPoints ?api tetra = (kSuccess, [10, 11, 12, 13])"
    and n: "fn_numVertices ?api tetra = int (length [10, 11, 12, 13 :: int])"
    and p': "fn_getPoints ?api ?mesh' = (kSuccess, [11, 13, 10, 12])"
    and n': "fn_numVertices ?api ?mesh' = int (length [11, 13, 10, 12 :: int])"
    by (simp_all add: test_store_def tetra_def)
  have s: "length [10, 11, 12, 13 :: int] < 2 ^ 31" by simp
  have b: "is_bijection [2, 0, 3, 1] (length [10, 11, 12, 13 :: int])"
    by (simp add: is_bijection_def)
  have i: "is_inverse [2, 0, 3, 1] [1, 3, 0, 2]"
    by (simp add: is_inverse_def at_def uint_of_def less_Suc_eq numeral_eq_Suc all_conj_distrib)
  have f: "getPoints ?api tetra [2, 0, 3, 1] [] = Some (kSuccess, [11, 13, 10, 12])"
    by (simp add: run_simps tetra_def)
  from getPoints_round_trip [OF p n s b i f p' n', of "[]"] f show ?thesis by simp
qed







section \<open>The topology remap\<close>

lemma getPolys_loop_map:
  assumes "\<forall>k. i \<le> k \<and> k < length polyConnects \<longrightarrow> uint_of (polyConnects ! k) < length pointOrder"
  shows "getPolys_loop pointOrder i polyConnects =
     Some (take i polyConnects @ map (\<lambda>v. pointOrder ! uint_of v) (drop i polyConnects))"
  using assms
proof (induction "length polyConnects - i" arbitrary: i polyConnects)
  case 0
  then show ?case by (subst getPolys_loop.simps) simp
next
  case (Suc n)
  then have lt: "i < length polyConnects" by linarith
  let ?w = "pointOrder ! uint_of (polyConnects ! i)"
  let ?pc = "polyConnects[i := ?w]"
  have r: "uint_of (polyConnects ! i) < length pointOrder"
    using Suc.prems lt by simp
  have "getPolys_loop pointOrder i polyConnects = getPolys_loop pointOrder (Suc i) ?pc"
    using lt r by (subst getPolys_loop.simps) (simp add: at_def put_def)
  also have "\<dots> = Some (take (Suc i) ?pc @ map (\<lambda>v. pointOrder ! uint_of v) (drop (Suc i) ?pc))"
    using Suc.hyps(2) Suc.prems by (intro Suc.hyps(1)) auto
  also have "take (Suc i) ?pc @ map (\<lambda>v. pointOrder ! uint_of v) (drop (Suc i) ?pc) =
      take i polyConnects @ map (\<lambda>v. pointOrder ! uint_of v) (drop i polyConnects)"
    using lt by (simp add: take_Suc_conv_app_nth Cons_nth_drop_Suc [symmetric])
  finally show ?case .
qed

text \<open>
  C2. Topology remap contract: \<open>getPolys\<close> returns the face counts unchanged in both
  cases; with the flag set every connectivity entry \<open>v\<close> is replaced by \<open>pointOrder[v]\<close>
  (each entry being an index of \<open>pointOrder\<close>, an array of fewer than \<open>2^32\<close> elements),
  and with the flag clear the connectivity is returned unchanged.
\<close>

theorem getPolys_remap:
  assumes "fn_getVertices api mesh = (st, polyCounts, polyConnects)"
    and "\<forall>v\<in>set polyConnects. 0 \<le> v \<and> v < int (length pointOrder)"
    and "length pointOrder < 2 ^ 32"
  shows "getPolys api mesh pointOrder True =
           Some (kSuccess, polyCounts, map (\<lambda>v. pointOrder ! nat v) polyConnects)
       \<and> getPolys api mesh pointOrder False = Some (kSuccess, polyCounts, polyConnects)"
proof -
  have u: "uint_of v = nat v" if "v \<in> set polyConnects" for v
    using assms(2,3) that by (intro uint_of_small) auto
  have "uint_of (polyConnects ! k) < length pointOrder" if "k < length polyConnects" for k
  proof -
    from that have "polyConnects ! k \<in> set polyConnects" by simp
    with u assms(2) show ?thesis by auto
  qed
  then have "\<forall>k. 0 \<le> k \<and> k < length polyConnects \<longrightarrow> uint_of (polyConnects ! k) < length pointOrder"
    by simp
  from getPolys_loop_map [OF this]
  have "getPolys_loop pointOrder 0 polyConnects =
      Some (map (\<lambda>v. pointOrder ! uint_of v) polyConnects)"
    by simp
  moreover have "map (\<lambda>v. pointOrder ! uint_of v) polyConnects =
      map (\<lambda>v. pointOrder ! nat v) polyConnects"
    using u by simp
  ultimately show ?thesis
    by (simp add: getPolys_def assms(1))
qed

text \<open>
  On the tetrahedron with point order \<open>[2, 0, 3, 1]\<close>: entries referencing old vertex 1
  become 0.
\<close>

theorem getPolys_remap_witness:
  "getPolys (test_store succeed) tetra [2, 0, 3, 1] True =
     Some (kSuccess, [3, 3, 3, 3], [2, 0, 3, 2, 1, 0, 2, 3, 1, 0, 1, 3])
   \<and> getPolys (test_store succeed) tetra [2, 0, 3, 1] False =
     Some (kSuccess, [3, 3, 3, 3], [0, 1, 2, 0, 3, 1, 0, 2, 3, 1, 3, 2])"
proof -
  have v: "fn_getVertices (test_store succeed) tetra = (kSuccess, d_counts tetra, d_connects tetra)"
    by (simp add: test_store_def)
  have r: "\<forall>v\<in>set (d_connects tetra). 0 \<le> v \<and> v < int (length [2, 0, 3, 1 :: int])"
    by (simp add: tetra_def)
  have l: "length [2, 0, 3, 1 :: int] < 2 ^ 32" by simp
  from getPolys_remap [OF v r l] show ?thesis
    by (simp add: tetra_def)
qed

section \<open>The lock transfer\<close>

lemma upd_block:
  assumes "L < length xs"
  shows "take (Suc L) (xs[L := x]) @ ys @ drop (Suc L + length ys) (xs[L := x])
       = take L xs @ (x # ys) @ drop (L + length (x # ys)) xs"
  using take_upd_block [OF assms, of x ys "length ys"] by simp

lemma setFaceVertexLocks_loop_partition:
  assumes "N \<le> length lockedList" and "N \<le> length faceList" and "N \<le> length vertexList"
    and "ks1 = filter (\<lambda>k. lockedList ! k = 1) [i..<N]"
    and "ks0 = filter (\<lambda>k. lockedList ! k \<noteq> 1) [i..<N]"
    and "L + length ks1 \<le> length lfl" and "L + length ks1 \<le> length lvl"
    and "UL + length ks0 \<le> length ufl" and "UL + length ks0 \<le> length uvl"
  shows "setFaceVertexLocks_loop lockedList faceList vertexList N i lfl lvl ufl uvl L UL =
     Some (take L lfl @ map ((!) faceList) ks1 @ drop (L + length ks1) lfl,
           take L lvl @ map ((!) vertexList) ks1 @ drop (L + length ks1) lvl,
           take UL ufl @ map ((!) faceList) ks0 @ drop (UL + length ks0) ufl,
           take UL uvl @ map ((!) vertexList) ks0 @ drop (UL + length ks0) uvl,
           L + length ks1, UL + length ks0)"
  using assms
proof (induction "N - i" arbitrary: i lfl lvl ufl uvl L UL ks1 ks0)
  case 0
  then show ?case
    by (subst setFaceVertexLocks_loop.simps) simp
next
  case (Suc n)
  then have lt: "i < N" and n: "n = N - Suc i" by linarith+
  have rd: "at lockedList i = Some (lockedList ! i)" "at faceList i = Some (faceList ! i)"
    "at vertexList i = Some (vertexList ! i)"
    using lt Suc.prems(1-3) by (simp_all add: at_def)
  show ?case
  proof (cases "lockedList ! i = 1")
    case True
    define ks1' where "ks1' = filter (\<lambda>k. lockedList ! k = 1) [Suc i..<N]"
    have ks: "ks1 = i # ks1'" "ks0 = filter (\<lambda>k. lockedList ! k \<noteq> 1) [Suc i..<N]"
      using lt True by (simp_all add: Suc.prems(4,5) upt_conv_Cons ks1'_def)
    have b: "L < length lfl" "L < length lvl"
      using Suc.prems(6,7) ks by simp_all
    let ?lfl = "lfl[L := faceList ! i]" and ?lvl = "lvl[L := vertexList ! i]"
    have "setFaceVertexLocks_loop lockedList faceList vertexList N i lfl lvl ufl uvl L UL =
        setFaceVertexLocks_loop lockedList faceList vertexList N (Suc i) ?lfl ?lvl ufl uvl
          (Suc L) UL"
      using lt True b by (subst setFaceVertexLocks_loop.simps) (simp add: rd put_def)
    also have "\<dots> =
      Some (take (Suc L) ?lfl @ map ((!) faceList) ks1' @ drop (Suc L + length ks1') ?lfl,
           take (Suc L) ?lvl @ map ((!) vertexList) ks1' @ drop (Suc L + length ks1') ?lvl,
           take UL ufl @ map ((!) faceList) ks0 @ drop (UL + length ks0) ufl,
           take UL uvl @ map ((!) vertexList) ks0 @ drop (UL + length ks0) uvl,
           Suc L + length ks1', UL + length ks0)"
    proof -
      have "Suc L + length ks1' \<le> length ?lfl" "Suc L + length ks1' \<le> length ?lvl"
        using Suc.prems(6,7) by (simp_all add: ks)
      from Suc.hyps(1) [OF n Suc.prems(1-3) ks1'_def ks(2) this Suc.prems(8,9)]
      show ?thesis .
    qed
    also have "take (Suc L) ?lfl @ map ((!) faceList) ks1' @ drop (Suc L + length ks1') ?lfl =
        take L lfl @ map ((!) faceList) ks1 @ drop (L + length ks1) lfl"
      using upd_block [OF b(1), of "faceList ! i" "map ((!) faceList) ks1'"] by (simp add: ks)
    also have "take (Suc L) ?lvl @ map ((!) vertexList) ks1' @ drop (Suc L + length ks1') ?lvl =
        take L lvl @ map ((!) vertexList) ks1 @ drop (L + length ks1) lvl"
      using upd_block [OF b(2), of "vertexList ! i" "map ((!) vertexList) ks1'"] by (simp add: ks)
    also have "Suc L + length ks1' = L + length ks1" by (simp add: ks)
    finally show ?thesis .
  next
    case False
    define ks0' where "ks0' = filter (\<lambda>k. lockedList ! k \<noteq> 1) [Suc i..<N]"
    have ks: "ks0 = i # ks0'" "ks1 = filter (\<lambda>k. lockedList ! k = 1) [Suc i..<N]"
      using lt False by (simp_all add: Suc.prems(4,5) upt_conv_Cons ks0'_def)
    have b: "UL < length ufl" "UL < length uvl"
      using Suc.prems(8,9) ks by simp_all
    let ?ufl = "ufl[UL := faceList ! i]" and ?uvl = "uvl[UL := vertexList ! i]"
    have "setFaceVertexLocks_loop lockedList faceList vertexList N i lfl lvl ufl uvl L UL =
        setFaceVertexLocks_loop lockedList faceList vertexList N (Suc i) lfl lvl ?ufl ?uvl
          L (Suc UL)"
      using lt False b by (subst setFaceVertexLocks_loop.simps) (simp add: rd put_def)
    also have "\<dots> =
      Some (take L lfl @ map ((!) faceList) ks1 @ drop (L + length ks1) lfl,
           take L lvl @ map ((!) vertexList) ks1 @ drop (L + length ks1) lvl,
           take (Suc UL) ?ufl @ map ((!) faceList) ks0' @ drop (Suc UL + length ks0') ?ufl,
           take (Suc UL) ?uvl @ map ((!) vertexList) ks0' @ drop (Suc UL + length ks0') ?uvl,
           L + length ks1, Suc UL + length ks0')"
    proof -
      have "Suc UL + length ks0' \<le> length ?ufl" "Suc UL + length ks0' \<le> length ?uvl"
        using Suc.prems(8,9) by (simp_all add: ks)
      from Suc.hyps(1) [OF n Suc.prems(1-3) ks(2) ks0'_def Suc.prems(6,7) this]
      show ?thesis .
    qed
    also have "take (Suc UL) ?ufl @ map ((!) faceList) ks0' @ drop (Suc UL + length ks0') ?ufl =
        take UL ufl @ map ((!) faceList) ks0 @ drop (UL + length ks0) ufl"
      using upd_block [OF b(1), of "faceList ! i" "map ((!) faceList) ks0'"] by (simp add: ks)
    also have "take (Suc UL) ?uvl @ map ((!) vertexList) ks0' @ drop (Suc UL + length ks0') ?uvl =
        take UL uvl @ map ((!) vertexList) ks0 @ drop (UL + length ks0) uvl"
      using upd_block [OF b(2), of "vertexList ! i" "map ((!) vertexList) ks0'"] by (simp add: ks)
    also have "Suc UL + length ks0' = UL + length ks0" by (simp add: ks)
    finally show ?thesis .
  qed
qed

lemma nths_positions:
  "nths xs A = map ((!) xs) (filter (\<lambda>k. k \<in> A) [0..<length xs])"
proof (induction xs rule: rev_induct)
  case Nil
  then show ?case by simp
next
  case (snoc x xs)
  have "map ((!) (xs @ [x])) (filter (\<lambda>k. k \<in> A) [0..<length xs]) =
      map ((!) xs) (filter (\<lambda>k. k \<in> A) [0..<length xs])"
    by (rule map_cong) (simp_all add: nth_append)
  with snoc show ?case
    by (simp add: nths_append)
qed

lemma nths_zip_fst:
  "length xs = length ys \<Longrightarrow> map fst (nths (zip xs ys) A) = nths xs A"
  by (simp add: nths_map [symmetric])

lemma nths_zip_snd:
  "length xs = length ys \<Longrightarrow> map snd (nths (zip xs ys) A) = nths ys A"
  by (simp add: nths_map [symmetric])

lemma mset_nths_partition:
  "mset (nths xs {i. P i}) + mset (nths xs {i. \<not> P i}) = mset xs"
proof -
  let ?zs = "zip xs [0..<length xs]"
  have "mset (filter (\<lambda>p. P (snd p)) ?zs) + mset (filter (\<lambda>p. \<not> P (snd p)) ?zs) = mset ?zs"
    by simp
  then have "mset (map fst (filter (\<lambda>p. P (snd p)) ?zs))
           + mset (map fst (filter (\<lambda>p. \<not> P (snd p)) ?zs)) = mset (map fst ?zs)"
    by (metis image_mset_union mset_map)
  then show ?thesis by (simp add: nths_def)
qed

lemma setFaceVertexLocks_loop_calls:
  assumes verts: "fn_getVertices api mesh = (kSuccess, polyCounts, polyConnects)"
    and enum: "getFaceVertexList (uninit_int api) polyCounts polyConnects [] []
                 = Some (faceList, vertexList)"
    and flags: "length lockedList = length polyConnects"
    and corners: "corners = zip faceList vertexList"
    and locked: "locked = nths corners {i. lockedList ! i = 1}"
    and unlocked: "unlocked = nths corners {i. lockedList ! i \<noteq> 1}"
  shows "setFaceVertexLocks api mesh lockedList =
           Some (issue_calls api all_checked (applyLocks_calls unlocked locked) mesh)
       \<and> length locked + length unlocked = length corners
       \<and> mset locked + mset unlocked = mset corners
       \<and> subseq locked corners \<and> subseq unlocked corners"
proof -
  let ?N = "length polyConnects"
  let ?z = "replicate ?N (0::int)"
  define ks1 where "ks1 = filter (\<lambda>k. lockedList ! k = 1) [0..<?N]"
  define ks0 where "ks0 = filter (\<lambda>k. lockedList ! k \<noteq> 1) [0..<?N]"
  from getFaceVertexList_length [OF enum]
  have len: "length faceList = ?N" "length vertexList = ?N" .
  have k1: "length ks1 \<le> ?N" and k0: "length ks0 \<le> ?N"
    using length_filter_le [of _ "[0..<?N]"] by (simp_all add: ks1_def ks0_def)
  have loop: "setFaceVertexLocks_loop lockedList faceList vertexList ?N 0 ?z ?z ?z ?z 0 0 =
     Some (take 0 ?z @ map ((!) faceList) ks1 @ drop (0 + length ks1) ?z,
           take 0 ?z @ map ((!) vertexList) ks1 @ drop (0 + length ks1) ?z,
           take 0 ?z @ map ((!) faceList) ks0 @ drop (0 + length ks0) ?z,
           take 0 ?z @ map ((!) vertexList) ks0 @ drop (0 + length ks0) ?z,
           0 + length ks1, 0 + length ks0)"
    using k1 k0 len flags
    by (intro setFaceVertexLocks_loop_partition) (simp_all add: ks1_def ks0_def)
  have cut: "setLength u (length ks) (map f ks @ rest) = map f ks"
    for u rest and ks :: "nat list" and f :: "nat \<Rightarrow> int"
    by (simp add: setLength_def)
  have lf: "map fst locked = map ((!) faceList) ks1" "map snd locked = map ((!) vertexList) ks1"
    and uf: "map fst unlocked = map ((!) faceList) ks0"
      "map snd unlocked = map ((!) vertexList) ks0"
    using len
    by (simp_all add: locked unlocked corners nths_zip_fst nths_zip_snd nths_positions
        ks1_def ks0_def)
  have e1: "locked = [] \<longleftrightarrow> ks1 = []" and e0: "unlocked = [] \<longleftrightarrow> ks0 = []"
    using lf(1) uf(1) by (metis map_is_Nil_conv)+
  have run: "setFaceVertexLocks api mesh lockedList =
           Some (issue_calls api all_checked (applyLocks_calls unlocked locked) mesh)"
    by (simp add: setFaceVertexLocks_def verts enum Let_def loop cut applyLocks_calls_def
        e1 e0 lf uf all_checked_def split: prod.splits)
  have part: "mset locked + mset unlocked = mset corners"
    unfolding locked unlocked by (rule mset_nths_partition)
  from part have "size (mset locked + mset unlocked) = size (mset corners)" by simp
  then have sz: "length locked + length unlocked = length corners" by simp
  have "subseq locked corners" "subseq unlocked corners"
    unfolding locked unlocked by (auto simp: subseq_conv_nths)
  with run part sz show ?thesis by simp
qed

lemma setFaceVertexLocks_calls:
  assumes verts: "fn_getVertices api mesh = (kSuccess, polyCounts, polyConnects)"
    and enum: "getFaceVertexList (uninit_int api) polyCounts polyConnects [] []
                 = Some (faceList, vertexList)"
    and flags: "length lockedList = length polyConnects"
  shows "setFaceVertexLocks api mesh lockedList =
           Some (issue_calls api all_checked
                   (applyLocks_calls (nths (zip faceList vertexList) {i. lockedList ! i \<noteq> 1})
                      (nths (zip faceList vertexList) {i. lockedList ! i = 1})) mesh)"
  using setFaceVertexLocks_loop_calls [OF verts enum flags refl refl refl] by simp

text \<open>
  C3. Lock partition and application order: with \<open>corners\<close> the enumerated (face, vertex)
  pairs of the mesh and one flag per corner, \<open>setFaceVertexLocks\<close> issues the calls of
  \<open>applyLocks_calls\<close>: the unlock call for the corners whose flag is not 1, then the lock
  call for the corners whose flag is 1, each left out when its list is empty, stopping at a
  failing call. The two lists are the corners at complementary sets of positions, so they
  are disjoint and cover every corner; their lengths add up to the corner count; and each
  keeps the corners in their order.
\<close>

theorem setFaceVertexLocks_partition:
  assumes verts: "fn_getVertices api mesh = (kSuccess, polyCounts, polyConnects)"
    and enum: "getFaceVertexList (uninit_int api) polyCounts polyConnects [] []
                 = Some (faceList, vertexList)"
    and flags: "length lockedList = length polyConnects"
    and corners: "corners = zip faceList vertexList"
    and locked: "locked = nths corners {i. lockedList ! i = 1}"
    and unlocked: "unlocked = nths corners {i. lockedList ! i \<noteq> 1}"
  shows "setFaceVertexLocks api mesh lockedList =
           Some (issue_calls api all_checked (applyLocks_calls unlocked locked) mesh)
       \<and> length locked + length unlocked = length corners
       \<and> mset locked + mset unlocked = mset corners
       \<and> subseq locked corners \<and> subseq unlocked corners"
  using assms by (rule setFaceVertexLocks_loop_calls)

text \<open>
  The quad with corners 0 and 2 locked: one unlock call with corners 1 and 3, then one
  lock call with corners 0 and 2.
\<close>

theorem setFaceVertexLocks_partition_witness:
  "setFaceVertexLocks (test_store succeed) quad [1, 0, 1, 0] =
     Some (kSuccess,
           quad\<lparr>d_calls := [UnlockFaceVertexNormals [0, 0] [1, 3],
                             LockFaceVertexNormals [0, 0] [0, 2]]\<rparr>)"
proof -
  have v: "fn_getVertices (test_store succeed) quad = (kSuccess, [4], [0, 1, 2, 3])"
    by (simp add: test_store_def quad_def)
  have e: "getFaceVertexList (uninit_int (test_store succeed)) [4] [0, 1, 2, 3] [] [] =
      Some ([0, 0, 0, 0], [0, 1, 2, 3])"
    by (simp add: run_simps)
  have f: "length [1, 0, 1, 0 :: int] = length [0, 1, 2, 3 :: int]" by simp
  have l: "[(0, 0), (0, 2)] = nths (zip [0, 0, 0, 0] [0, 1, 2, 3 :: int]) {i. [1, 0, 1, 0 :: int] ! i = 1}"
    by (simp add: nths_def upt_rec)
  have u: "[(0, 1), (0, 3)] = nths (zip [0, 0, 0, 0] [0, 1, 2, 3 :: int]) {i. [1, 0, 1, 0 :: int] ! i \<noteq> 1}"
    by (simp add: nths_def upt_rec)
  from setFaceVertexLocks_partition [OF v e f refl l u] show ?thesis
    by (simp add: applyLocks_calls_def all_checked_def test_store_def succeed_def quad_def)
qed

section \<open>The edge smoothing transfer\<close>

lemma lookup_default_subscript:
  "lookup_default (snd (subscript m k)) k' = lookup_default m k'"
  by (simp add: lookup_default_def subscript_def split: option.splits)

lemma fst_subscript: "fst (subscript m k) = lookup_default m k"
  by (simp add: lookup_default_def subscript_def split: option.splits)

lemma applySmoothing_calls_cong:
  assumes "\<And>key. lookup_default m key = lookup_default m' key"
  shows "applySmoothing_calls m k edges = applySmoothing_calls m' k edges"
  by (simp add: applySmoothing_calls_def assms)

lemma applySmoothing_calls_Cons:
  "applySmoothing_calls m k ((v0, v1, s) # edges) =
     SetSmoothing k (lookup_default m (twoIntKey v0 v1)) # applySmoothing_calls m (Suc k) edges"
  by (simp add: applySmoothing_calls_def)

lemma setEdgeSmoothing_loop_calls:
  "fst (setEdgeSmoothing_loop api edges k mesh m) =
     snd (issue_calls api no_check (applySmoothing_calls m k edges) mesh)"
proof (induction edges arbitrary: k mesh m)
  case Nil
  then show ?case by (simp add: applySmoothing_calls_def)
next
  case (Cons e edges)
  obtain v0 v1 s where e: "e = (v0, v1, s)" by (cases e)
  let ?key = "twoIntKey v0 v1"
  obtain b m' where sub: "subscript m ?key = (b, m')" by (cases "subscript m ?key")
  have b: "b = lookup_default m ?key" using fst_subscript [of m ?key] sub by simp
  have m': "applySmoothing_calls m' (Suc k) edges = applySmoothing_calls m (Suc k) edges"
    using lookup_default_subscript [of m ?key] sub by (intro applySmoothing_calls_cong) simp
  show ?case
    by (simp add: e sub Cons.IH m' applySmoothing_calls_Cons b [symmetric] no_check_def
        split: prod.splits)
qed

text \<open>
  C6. Missing-edge-key behaviour: \<open>setEdgeSmoothing\<close> always returns \<open>kSuccess\<close>; the
  calls it issues are those of \<open>applySmoothing_calls\<close>, none of them checked; and for every
  edge of the output mesh whose key is absent from the map, the call is
  \<open>setSmoothing(false)\<close>: the edge is set hard and no error is reported.
\<close>

theorem setEdgeSmoothing_missing_key:
  "fst (setEdgeSmoothing api mesh edgeSmoothing) = kSuccess
   \<and> fst (snd (setEdgeSmoothing api mesh edgeSmoothing)) =
       snd (issue_calls api no_check (applySmoothing_calls edgeSmoothing 0 (fn_edges api mesh)) mesh)
   \<and> (\<forall>k v0 v1 isSmooth. k < length (fn_edges api mesh)
          \<and> fn_edges api mesh ! k = (v0, v1, isSmooth)
          \<and> edgeSmoothing (twoIntKey v0 v1) = None
        \<longrightarrow> applySmoothing_calls edgeSmoothing 0 (fn_edges api mesh) ! k = SetSmoothing k False)"
proof -
  have "applySmoothing_calls edgeSmoothing 0 edges ! k = SetSmoothing k False"
    if "k < length edges" "edges ! k = (v0, v1, isSmooth)" "edgeSmoothing (twoIntKey v0 v1) = None"
    for k v0 v1 isSmooth and edges :: "(int \<times> int \<times> bool) list"
    using that by (simp add: applySmoothing_calls_def lookup_default_def nth_enumerate_eq)
  then show ?thesis
    using setEdgeSmoothing_loop_calls [of api "fn_edges api mesh" 0 mesh edgeSmoothing]
    by (auto simp: setEdgeSmoothing_def split: prod.splits)
qed

text \<open>
  The quad with a map holding the key of edge \<open>(0, 1)\<close> only: that edge is set smooth, the
  three edges with a missing key are set hard.
\<close>

theorem setEdgeSmoothing_missing_key_witness:
  "fst (setEdgeSmoothing (test_store succeed) quad [twoIntKey 0 1 \<mapsto> True]) = kSuccess
   \<and> d_calls (fst (snd (setEdgeSmoothing (test_store succeed) quad [twoIntKey 0 1 \<mapsto> True])))
       = [SetSmoothing 0 True, SetSmoothing 1 False, SetSmoothing 2 False, SetSmoothing 3 False]"
proof -
  let ?api = "test_store succeed :: (test_mesh, int, int, int, int) store"
  note W = setEdgeSmoothing_missing_key [of ?api quad "[twoIntKey 0 1 \<mapsto> True]"]
  from W have a: "fst (setEdgeSmoothing ?api quad [twoIntKey 0 1 \<mapsto> True]) = kSuccess"
    by blast
  from W have b: "fst (snd (setEdgeSmoothing ?api quad [twoIntKey 0 1 \<mapsto> True])) =
      snd (issue_calls ?api no_check
             (applySmoothing_calls [twoIntKey 0 1 \<mapsto> True] 0 (fn_edges ?api quad)) quad)"
    by blast
  show ?thesis
    unfolding a b
    by (simp add: applySmoothing_calls_def lookup_default_def no_check_def test_store_def quad_def
        twoIntKey_def succeed_def)
qed

section \<open>The UV set transfer\<close>

lemma issue_calls_append:
  "issue_calls api checked (cs @ ds) mesh =
     (case issue_calls api checked cs mesh of
        (status, mesh') \<Rightarrow>
          if status \<noteq> kSuccess then (status, mesh') else issue_calls api checked ds mesh')"
  by (induction cs arbitrary: mesh) (auto split: prod.splits)

lemma setUVs_calls:
  "setUVs api mesh uvSets =
     issue_calls api uv_checked (concat (map applyUVSet_calls uvSets)) mesh"
proof (induction uvSets arbitrary: mesh)
  case Nil
  then show ?case by simp
next
  case (Cons uvData uvSets)
  show ?case
    by (simp add: issue_calls_append applyUVSet_calls_def Cons.IH uv_checked_def Let_def
        split: prod.splits)
qed

text \<open>
  C9. UV set application order: \<open>setUVs\<close> issues, for the sets in list order, the calls of
  \<open>applyUVSet_calls\<close>: \<open>createUVSet\<close> only when the name is not \<open>map1\<close>, then \<open>clearUVs\<close>,
  then \<open>setUVs\<close>, then \<open>assignUVs\<close>. A failing \<open>createUVSet\<close> does not stop the sequence;
  a failure of any of the three other calls ends it with that status.
\<close>

theorem setUVs_call_order:
  "setUVs api mesh uvSets =
     issue_calls api uv_checked (concat (map applyUVSet_calls uvSets)) mesh"
  by (rule setUVs_calls)

text \<open>
  The two UV sets of the quad on a store where \<open>createUVSet\<close> fails: the set \<open>uv2\<close> is
  cleared, written and assigned all the same.
\<close>

theorem setUVs_call_order_witness:
  "setUVs (test_store refuse_createUVSet) quad (d_uvSets quad) =
     (kSuccess,
      quad\<lparr>d_calls := [ClearUVs ''map1'', SetUVs [1, 2] [3, 4] ''map1'',
                        AssignUVs [4] [0, 1, 0, 1] ''map1'', CreateUVSet ''uv2'',
                        ClearUVs ''uv2'', SetUVs [5] [6] ''uv2'',
                        AssignUVs [4] [0, 0, 0, 0] ''uv2'']\<rparr>)"
  unfolding setUVs_call_order
  by (simp add: applyUVSet_calls_def uv_checked_def test_store_def refuse_createUVSet_def quad_def)

section \<open>The normal extraction\<close>

lemma getFaceVertexNormals_inner_fill:
  assumes "n \<le> length normals" and "i \<le> length vertexNormals"
  shows "getFaceVertexNormals_inner normals n v i vertexNormals =
     (if i + (n - v) \<le> length vertexNormals
      then Some (i + (n - v),
                 take i vertexNormals @ take (n - v) (drop v normals)
                   @ drop (i + (n - v)) vertexNormals)
      else None)"
  using assms
proof (induction "n - v" arbitrary: v i vertexNormals)
  case 0
  then show ?case
    by (subst getFaceVertexNormals_inner.simps) simp
next
  case (Suc k)
  then have lt: "v < n" and k: "k = n - Suc v" by linarith+
  show ?case
  proof (cases "i < length vertexNormals")
    case False
    with lt show ?thesis
      by (subst getFaceVertexNormals_inner.simps) (simp add: put_def)
  next
    case True
    let ?vn = "vertexNormals[i := normals ! v]"
    have nv: "n - v = Suc (n - Suc v)" using lt by simp
    have "getFaceVertexNormals_inner normals n v i vertexNormals =
        getFaceVertexNormals_inner normals n (Suc v) (Suc i) ?vn"
      using lt True by (subst getFaceVertexNormals_inner.simps) (simp add: put_def)
    also have "\<dots> = (if Suc i + (n - Suc v) \<le> length ?vn
      then Some (Suc i + (n - Suc v),
                 take (Suc i) ?vn @ take (n - Suc v) (drop (Suc v) normals)
                   @ drop (Suc i + (n - Suc v)) ?vn)
      else None)"
      using True Suc.prems(1) by (intro Suc.hyps(1) [OF k]) simp_all
    also have "\<dots> = (if i + (n - v) \<le> length vertexNormals
      then Some (i + (n - v),
                 take i vertexNormals @ take (n - v) (drop v normals)
                   @ drop (i + (n - v)) vertexNormals)
      else None)"
    proof -
      have "take (Suc i) ?vn @ take (n - Suc v) (drop (Suc v) normals)
                   @ drop (Suc i + (n - Suc v)) ?vn =
          take i vertexNormals @ take (Suc (n - Suc v)) (drop v normals)
                   @ drop (i + Suc (n - Suc v)) vertexNormals"
        using take_upd_block [OF True, of "normals ! v" "take (n - Suc v) (drop (Suc v) normals)"
            "n - Suc v"] lt Suc.prems(1)
        by (simp add: Cons_nth_drop_Suc [symmetric])
      then show ?thesis by (simp add: nv)
    qed
    finally show ?thesis .
  qed
qed

lemma getFaceVertexNormals_polys_fill:
  assumes "i \<le> length vertexNormals"
  shows "getFaceVertexNormals_polys polys i vertexNormals =
     (if i + length (concat polys) \<le> length vertexNormals
      then Some (take i vertexNormals @ concat polys
                   @ drop (i + length (concat polys)) vertexNormals)
      else None)"
  using assms
proof (induction polys arbitrary: i vertexNormals)
  case Nil
  then show ?case by simp
next
  case (Cons normals polys)
  let ?n = "length normals"
  show ?case
  proof (cases "i + ?n \<le> length vertexNormals")
    case False
    with Cons.prems show ?thesis
      by (simp add: getFaceVertexNormals_inner_fill)
  next
    case True
    let ?vn = "take i vertexNormals @ normals @ drop (i + ?n) vertexNormals"
    have len: "length ?vn = length vertexNormals" using True by simp
    have inner: "getFaceVertexNormals_inner normals ?n 0 i vertexNormals = Some (i + ?n, ?vn)"
      using True Cons.prems by (simp add: getFaceVertexNormals_inner_fill)
    have rest: "getFaceVertexNormals_polys polys (i + ?n) ?vn =
      (if i + ?n + length (concat polys) \<le> length ?vn
       then Some (take (i + ?n) ?vn @ concat polys
                   @ drop (i + ?n + length (concat polys)) ?vn)
       else None)"
      using True by (intro Cons.IH) simp
    have "take (i + ?n) ?vn @ concat polys @ drop (i + ?n + length (concat polys)) ?vn =
        take i vertexNormals @ (normals @ concat polys)
          @ drop (i + (?n + length (concat polys))) vertexNormals"
      if "i + ?n + length (concat polys) \<le> length vertexNormals"
      using splice_splice [OF refl that, of "concat polys"] .
    then show ?thesis
      using len by (simp add: inner rest add.assoc)
  qed
qed

lemma getFaceVertexNormals_fill:
  "getFaceVertexNormals api mesh vertexNormals =
     (if length (concat (fn_polygons api mesh)) \<le> length vertexNormals
      then Some (kSuccess, concat (fn_polygons api mesh)
                   @ drop (length (concat (fn_polygons api mesh))) vertexNormals)
      else None)"
  by (simp add: getFaceVertexNormals_def getFaceVertexNormals_polys_fill)

lemma getFaceVertexLocks_loop_total:
  assumes "n \<le> length normalIds" and "n \<le> length lockedList"
  shows "\<exists>l. getFaceVertexLocks_loop locked normalIds n i lockedList = Some l"
  using assms
proof (induction "n - i" arbitrary: i lockedList)
  case 0
  then show ?case by (subst getFaceVertexLocks_loop.simps) simp
next
  case (Suc k)
  then have lt: "i < n" and k: "k = n - Suc i" by linarith+
  let ?l = "lockedList[i := if locked (normalIds ! i) then 1 else 0]"
  have "getFaceVertexLocks_loop locked normalIds n i lockedList =
      getFaceVertexLocks_loop locked normalIds n (Suc i) ?l"
    using lt Suc.prems by (subst getFaceVertexLocks_loop.simps) (simp add: at_def put_def)
  moreover have "\<exists>l. getFaceVertexLocks_loop locked normalIds n (Suc i) ?l = Some l"
    using Suc.prems by (intro Suc.hyps(1) [OF k]) simp_all
  ultimately show ?case by simp
qed

lemma getFaceVertexLocks_total:
  "\<exists>s l. getFaceVertexLocks api mesh lockedList = Some (s, l)"
proof -
  obtain st nc ids where ids: "fn_getNormalIds api mesh = (st, nc, ids)"
    by (cases "fn_getNormalIds api mesh")
  from getFaceVertexLocks_loop_total [of "length ids" ids
      "setLength (uninit_int api) (length ids) lockedList" "fn_isNormalLocked api mesh" 0]
  obtain l where "getFaceVertexLocks_loop (fn_isNormalLocked api mesh) ids (length ids) 0
      (setLength (uninit_int api) (length ids) lockedList) = Some l"
    by (auto simp: length_setLength)
  then show ?thesis
    by (simp add: getFaceVertexLocks_def ids Let_def)
qed

lemma getPolys_loop_length:
  "getPolys_loop pointOrder i polyConnects = Some out \<Longrightarrow> length out = length polyConnects"
proof (induction "length polyConnects - i" arbitrary: i polyConnects)
  case 0
  then show ?case by (subst (asm) getPolys_loop.simps) simp
next
  case (Suc n)
  then have lt: "i < length polyConnects" by linarith
  from Suc.prems lt obtain w
    where r: "getPolys_loop pointOrder (Suc i) (polyConnects[i := w]) = Some out"
    by (subst (asm) getPolys_loop.simps) (auto simp: at_def put_def split: option.splits if_splits)
  have "length out = length (polyConnects[i := w])"
    using Suc.hyps(2) by (intro Suc.hyps(1) [OF _ r]) simp
  then show ?case by simp
qed

lemma getPolys_length:
  assumes "getPolys api mesh pointOrder reorderPoints = Some (s, polyCounts, polyConnects)"
  shows "length polyConnects = length (snd (snd (fn_getVertices api mesh)))"
  using assms
  by (auto simp: getPolys_def getPolys_loop_length split: prod.splits if_splits option.splits)

lemma reorderMesh_extract_normals:
  assumes "getPoints api targetMesh pointOrder [] = Some (s1, points)"
    and "getPolys api sourceMesh pointOrder isMeshData = Some (s2, polyCounts, polyConnects)"
    and "getFaceVertexLocks api targetMesh [] = Some (s4, lockedList)"
    and "getEdgeSmoothing api targetMesh pointOrder Map.empty = Some (s5, edgeSmoothing)"
    and "getUVs api targetMesh [] = Some (s6, uvSets)"
  shows "reorderMesh_extract api sourceMesh targetMesh pointOrder isMeshData =
     (if length (concat (fn_polygons api targetMesh)) \<le> length polyConnects
      then Some (points, polyCounts, polyConnects,
                 concat (fn_polygons api targetMesh)
                   @ map (uninit_vector api)
                       [length (concat (fn_polygons api targetMesh))..<length polyConnects],
                 lockedList, edgeSmoothing, uvSets)
      else None)"
proof -
  have sl: "drop c (setLength (uninit_vector api) n []) = map (uninit_vector api) [c..<n]"
    for n c
    by (simp add: setLength_def drop_map)
  show ?thesis
    by (simp add: reorderMesh_extract_def assms getFaceVertexNormals_fill length_setLength sl)
qed

text \<open>
  C10 (as amended). Implicit precondition of normal extraction: \<open>getFaceVertexNormals\<close>
  stays in bounds exactly when \<open>vertexNormals\<close> has at least as many elements as the mesh
  has face-corners, and then it fills indices \<open>0 .. corners - 1\<close> with the normals in face
  order and leaves the rest of the array as it was. \<open>reorderMesh\<close> sets the length of the
  array to the length of the connectivity \<open>getPolys\<close> returned, which is that of the
  connectivity of the source mesh, and reads the normals of the target mesh. So, the other
  extraction steps returning, the extraction stays in range exactly when the target mesh
  has no more face-corners than the source mesh has connectivity entries; \<open>reorderMesh\<close>
  then goes on to mesh construction and attribute application with the normals of the
  target's corners (followed by the cells that \<open>setLength\<close> added, when the target has
  fewer corners), and it runs out of range otherwise.
\<close>

theorem getFaceVertexNormals_presized:
  fixes api :: "('m, 'p, 'fp, 'n, 'u) store" and targetMesh :: 'm
  defines "corners \<equiv> length (concat (fn_polygons api targetMesh))"
  shows "(getFaceVertexNormals api targetMesh vertexNormals \<noteq> None
            \<longleftrightarrow> corners \<le> length vertexNormals)
       \<and> (corners \<le> length vertexNormals \<longrightarrow>
            getFaceVertexNormals api targetMesh vertexNormals =
              Some (kSuccess, concat (fn_polygons api targetMesh) @ drop corners vertexNormals))
       \<and> (getPoints api targetMesh pointOrder [] = Some (s1, points)
            \<and> getPolys api sourceMesh pointOrder isMeshData = Some (s2, polyCounts, polyConnects)
            \<and> getFaceVertexLocks api targetMesh [] = Some (s4, lockedList)
            \<and> getEdgeSmoothing api targetMesh pointOrder Map.empty = Some (s5, edgeSmoothing)
            \<and> getUVs api targetMesh [] = Some (s6, uvSets) \<longrightarrow>
            length polyConnects = length (snd (snd (fn_getVertices api sourceMesh)))
            \<and> (reorderMesh_extract api sourceMesh targetMesh pointOrder isMeshData \<noteq> None
                 \<longleftrightarrow> corners \<le> length polyConnects)
            \<and> (reorderMesh api sourceMesh targetMesh pointOrder outMesh isMeshData =
                 (if corners \<le> length polyConnects
                  then (case reorderMesh_create api sourceMesh outMesh isMeshData points
                               polyCounts polyConnects of
                          None \<Rightarrow> None
                        | Some (status, outMesh1) \<Rightarrow>
                            if status \<noteq> kSuccess then Some (status, outMesh1)
                            else reorderMesh_apply api outMesh1 uvSets polyCounts polyConnects
                                   (concat (fn_polygons api targetMesh)
                                      @ map (uninit_vector api) [corners..<length polyConnects])
                                   lockedList edgeSmoothing)
                  else None)))"
proof -
  have a: "getFaceVertexNormals api targetMesh vn =
     (if corners \<le> length vn
      then Some (kSuccess, concat (fn_polygons api targetMesh) @ drop corners vn)
      else None)" for vn
    unfolding corners_def by (rule getFaceVertexNormals_fill)
  have b: "length polyConnects = length (snd (snd (fn_getVertices api sourceMesh)))
            \<and> (reorderMesh_extract api sourceMesh targetMesh pointOrder isMeshData \<noteq> None
                 \<longleftrightarrow> corners \<le> length polyConnects)
            \<and> (reorderMesh api sourceMesh targetMesh pointOrder outMesh isMeshData =
                 (if corners \<le> length polyConnects
                  then (case reorderMesh_create api sourceMesh outMesh isMeshData points
                               polyCounts polyConnects of
                          None \<Rightarrow> None
                        | Some (status, outMesh1) \<Rightarrow>
                            if status \<noteq> kSuccess then Some (status, outMesh1)
                            else reorderMesh_apply api outMesh1 uvSets polyCounts polyConnects
                                   (concat (fn_polygons api targetMesh)
                                      @ map (uninit_vector api) [corners..<length polyConnects])
                                   lockedList edgeSmoothing)
                  else None))"
    if h: "getPoints api targetMesh pointOrder [] = Some (s1, points)"
      "getPolys api sourceMesh pointOrder isMeshData = Some (s2, polyCounts, polyConnects)"
      "getFaceVertexLocks api targetMesh [] = Some (s4, lockedList)"
      "getEdgeSmoothing api targetMesh pointOrder Map.empty = Some (s5, edgeSmoothing)"
      "getUVs api targetMesh [] = Some (s6, uvSets)"
  proof -
    note e = reorderMesh_extract_normals [OF h, folded corners_def]
    have "reorderMesh_extract api sourceMesh targetMesh pointOrder isMeshData \<noteq> None
                 \<longleftrightarrow> corners \<le> length polyConnects"
      by (simp add: e)
    moreover have "reorderMesh api sourceMesh targetMesh pointOrder outMesh isMeshData =
                 (if corners \<le> length polyConnects
                  then (case reorderMesh_create api sourceMesh outMesh isMeshData points
                               polyCounts polyConnects of
                          None \<Rightarrow> None
                        | Some (status, outMesh1) \<Rightarrow>
                            if status \<noteq> kSuccess then Some (status, outMesh1)
                            else reorderMesh_apply api outMesh1 uvSets polyCounts polyConnects
                                   (concat (fn_polygons api targetMesh)
                                      @ map (uninit_vector api) [corners..<length polyConnects])
                                   lockedList edgeSmoothing)
                  else None)"
      by (simp add: e reorderMesh_def)
    ultimately show ?thesis
      using getPolys_length [OF h(2)] by blast
  qed
  from a b show ?thesis by simp
qed


text \<open>
  The quad (4 corners): an array of 5 is filled at indices 0 to 3, an array of 3 is out of
  range; \<open>reorderMesh\<close> from the quad to itself extracts the 4 normals and writes them to
  the output mesh.
\<close>

theorem getFaceVertexNormals_presized_witness:
  "getFaceVertexNormals (test_store succeed) quad [0, 0, 0, 0, 7] =
     Some (kSuccess, [100, 101, 102, 103, 7])
   \<and> getFaceVertexNormals (test_store succeed) quad [0, 0, 0] = None
   \<and> map_option (fst \<circ> snd \<circ> snd \<circ> snd)
        (reorderMesh_extract (test_store succeed) quad quad [1, 0, 3, 2] True)
       = Some [100, 101, 102, 103]
   \<and> map_option (d_calls \<circ> snd)
        (reorderMesh (test_store succeed) quad quad [1, 0, 3, 2] quad True)
       = Some [Create 4 1 [11, 10, 13, 12] [4] [1, 0, 3, 2], ClearUVs ''map1'',
               SetUVs [1, 2] [3, 4] ''map1'', AssignUVs [4] [0, 1, 0, 1] ''map1'',
               CreateUVSet ''uv2'', ClearUVs ''uv2'', SetUVs [5] [6] ''uv2'',
               AssignUVs [4] [0, 0, 0, 0] ''uv2'',
               SetFaceVertexNormals [100, 101, 102, 103] [0, 0, 0, 0] [1, 0, 3, 2],
               UnlockFaceVertexNormals [0, 0, 0, 0] [1, 0, 3, 2],
               UnlockFaceVertexNormals [0, 0] [0, 2],
               LockFaceVertexNormals [0, 0] [1, 3], SetSmoothing 0 False,
               SetSmoothing 1 False, SetSmoothing 2 False, SetSmoothing 3 False]"
proof -
  let ?api = "test_store succeed :: (test_mesh, int, int, int, int) store"
  have c: "concat (fn_polygons ?api quad) = [100, 101, 102, 103]"
    by (simp add: test_store_def quad_def)
  have gp: "getPoints ?api quad [1, 0, 3, 2] [] = Some (kSuccess, [11, 10, 13, 12])"
    and gy: "getPolys ?api quad [1, 0, 3, 2] True = Some (kSuccess, [4], [1, 0, 3, 2])"
    and gl: "getFaceVertexLocks ?api quad [] = Some (kSuccess, [1, 0, 1, 0])"
    by (simp_all add: run_simps quad_def)
  define es where "es = snd (the (getEdgeSmoothing ?api quad [1, 0, 3, 2] Map.empty))"
  define uvs where "uvs = snd (the (getUVs ?api quad []))"
  have ge: "getEdgeSmoothing ?api quad [1, 0, 3, 2] Map.empty = Some (kSuccess, es)"
    and gu: "getUVs ?api quad [] = Some (kSuccess, uvs)"
    by (simp_all add: es_def uvs_def run_simps quad_def)
  note W = getFaceVertexNormals_presized [where api = ?api and targetMesh = quad]
  from W [THEN conjunct2, THEN conjunct1, of "[0, 0, 0, 0, 7]"] c
  have a: "getFaceVertexNormals ?api quad [0, 0, 0, 0, 7] = Some (kSuccess, [100, 101, 102, 103, 7])"
    by simp
  from W [THEN conjunct1, of "[0, 0, 0]"] c
  have b: "getFaceVertexNormals ?api quad [0, 0, 0] = None"
    by fastforce
  note R = getFaceVertexNormals_presized [where api = ?api and targetMesh = quad
      and pointOrder = "[1, 0, 3, 2]" and sourceMesh = quad and isMeshData = True
      and ?s1.0 = kSuccess and points = "[11, 10, 13, 12]" and ?s2.0 = kSuccess
      and polyCounts = "[4]" and polyConnects = "[1, 0, 3, 2]" and ?s4.0 = kSuccess
      and lockedList = "[1, 0, 1, 0]" and ?s5.0 = kSuccess
      and edgeSmoothing = es and ?s6.0 = kSuccess and uvSets = uvs and outMesh = quad,
      THEN conjunct2, THEN conjunct2, rule_format, OF conjI [OF gp conjI [OF gy conjI [OF gl conjI [OF ge gu]]]]]
  from R [THEN conjunct2, THEN conjunct1] c
  have ne: "reorderMesh_extract ?api quad quad [1, 0, 3, 2] True \<noteq> None"
    by simp
  note rm = R [THEN conjunct2, THEN conjunct2]
  have x: "map_option (fst \<circ> snd \<circ> snd \<circ> snd)
        (reorderMesh_extract ?api quad quad [1, 0, 3, 2] True) = Some [100, 101, 102, 103]"
    using ne by (simp add: run_simps quad_def)
  have y: "map_option (d_calls \<circ> snd) (reorderMesh ?api quad quad [1, 0, 3, 2] quad True)
       = Some [Create 4 1 [11, 10, 13, 12] [4] [1, 0, 3, 2], ClearUVs ''map1'',
               SetUVs [1, 2] [3, 4] ''map1'', AssignUVs [4] [0, 1, 0, 1] ''map1'',
               CreateUVSet ''uv2'', ClearUVs ''uv2'', SetUVs [5] [6] ''uv2'',
               AssignUVs [4] [0, 0, 0, 0] ''uv2'',
               SetFaceVertexNormals [100, 101, 102, 103] [0, 0, 0, 0] [1, 0, 3, 2],
               UnlockFaceVertexNormals [0, 0, 0, 0] [1, 0, 3, 2],
               UnlockFaceVertexNormals [0, 0] [0, 2],
               LockFaceVertexNormals [0, 0] [1, 3], SetSmoothing 0 False,
               SetSmoothing 1 False, SetSmoothing 2 False, SetSmoothing 3 False]"
    unfolding rm by (simp add: es_def uvs_def run_simps quad_def)
  from a b x y show ?thesis by simp
qed

text \<open>
  C10 as the spec words it (\<open>reorderMesh\<close> establishes the precondition) does not hold
  when the target mesh has more face-corners than the source: with the quad as source
  (4 connectivity entries) and the tetrahedron as target (12 corners), the array has
  4 elements and the normal extraction, and with it \<open>reorderMesh\<close>, runs out of range.
\<close>

theorem reorderMesh_presize_counterexample:
  "getPolys (test_store succeed) quad [2, 0, 3, 1] True = Some (kSuccess, [4], [2, 0, 3, 1])
   \<and> length (concat (fn_polygons (test_store succeed) tetra)) = 12
   \<and> getFaceVertexNormals (test_store succeed) tetra
        (setLength (uninit_vector (test_store succeed)) 4 []) = None
   \<and> reorderMesh (test_store succeed) quad tetra [2, 0, 3, 1] quad True = None"
  by (simp add: run_simps quad_def tetra_def)

section \<open>Failure propagation\<close>

lemma setFaceVertexNormals_calls:
  assumes "getFaceVertexList (uninit_int api) polyCounts polyConnects [] [] = Some (faceList, vertexList)"
  shows "setFaceVertexNormals api mesh polyCounts polyConnects vertexNormals =
     Some (issue_calls api all_checked
             [SetFaceVertexNormals vertexNormals faceList vertexList,
              UnlockFaceVertexNormals faceList vertexList] mesh)"
  by (simp add: setFaceVertexNormals_def assms all_checked_def split: prod.splits)

lemma getUVs_fill_prefix:
  assumes "\<forall>d\<in>set pre. fst (fn_getUVs api mesh (name d)) = kSuccess
             \<and> fst (fn_getAssignedUVs api mesh (name d)) = kSuccess"
  shows "getUVs_fill api mesh visited (pre @ rest) =
     getUVs_fill api mesh
       (visited @ map (\<lambda>d. d\<lparr>uArray := fst (snd (fn_getUVs api mesh (name d))),
                               vArray := snd (snd (fn_getUVs api mesh (name d))),
                               uvCounts := fst (snd (fn_getAssignedUVs api mesh (name d))),
                               uvIds := snd (snd (fn_getAssignedUVs api mesh (name d)))\<rparr>) pre)
       rest"
  using assms
proof (induction pre arbitrary: visited)
  case Nil
  then show ?case by simp
next
  case (Cons d pre)
  obtain us vs where u: "fn_getUVs api mesh (name d) = (kSuccess, us, vs)"
    using Cons.prems by (cases "fn_getUVs api mesh (name d)") auto
  obtain cs ids where a: "fn_getAssignedUVs api mesh (name d) = (kSuccess, cs, ids)"
    using Cons.prems by (cases "fn_getAssignedUVs api mesh (name d)") auto
  from Cons.prems have "\<forall>d\<in>set pre. fst (fn_getUVs api mesh (name d)) = kSuccess
             \<and> fst (fn_getAssignedUVs api mesh (name d)) = kSuccess"
    by simp
  from Cons.IH [OF this, of "visited @ [d\<lparr>uArray := us, vArray := vs, uvCounts := cs, uvIds := ids\<rparr>]"]
  show ?case by (simp add: u a)
qed

lemma reorderMesh_steps:
  assumes e: "reorderMesh_extract api sourceMesh targetMesh pointOrder isMeshData =
      Some (points, polyCounts, polyConnects, vertexNormals, lockedList, edgeSmoothing, uvSets)"
  shows "(isMeshData
           \<and> fn_call api
                (Create (to_int (uint_of (fn_numVertices api sourceMesh)))
                   (to_int (uint_of (fn_numPolygons api sourceMesh)))
                   points polyCounts polyConnects) outMesh = (s0, mesh0)
           \<and> s0 \<noteq> kSuccess \<longrightarrow>
         reorderMesh api sourceMesh targetMesh pointOrder outMesh isMeshData = Some (s0, mesh0))
      \<and> ((isMeshData
            \<and> fn_call api
                (Create (to_int (uint_of (fn_numVertices api sourceMesh)))
                   (to_int (uint_of (fn_numPolygons api sourceMesh)))
                   points polyCounts polyConnects) outMesh = (kSuccess, mesh0)
           \<or> \<not> isMeshData
            \<and> reorderMesh_cast (fn_setCast api) points (uint_of (fn_numVertices api sourceMesh)) 0
                (replicate (uint_of (fn_numVertices api sourceMesh)) (origin_float api))
                = Some floatPoints
            \<and> fn_call api
                (CreateInPlace (to_int (uint_of (fn_numVertices api sourceMesh)))
                   (to_int (uint_of (fn_numPolygons api sourceMesh)))
                   floatPoints polyCounts polyConnects) outMesh = (kSuccess, mesh0))
          \<and> setUVs api mesh0 uvSets = (s1, mesh1) \<longrightarrow>
         (s1 \<noteq> kSuccess \<longrightarrow>
            reorderMesh api sourceMesh targetMesh pointOrder outMesh isMeshData = Some (s1, mesh1))
         \<and> (s1 = kSuccess
              \<and> setFaceVertexNormals api mesh1 polyCounts polyConnects vertexNormals
                    = Some (s2, mesh2) \<longrightarrow>
            (s2 \<noteq> kSuccess \<longrightarrow>
               reorderMesh api sourceMesh targetMesh pointOrder outMesh isMeshData
                 = Some (s2, mesh2))
            \<and> (s2 = kSuccess \<and> setFaceVertexLocks api mesh2 lockedList = Some (s3, mesh3) \<longrightarrow>
               (s3 \<noteq> kSuccess \<longrightarrow>
                  reorderMesh api sourceMesh targetMesh pointOrder outMesh isMeshData
                    = Some (s3, mesh3))
               \<and> (s3 = kSuccess \<longrightarrow>
                  reorderMesh api sourceMesh targetMesh pointOrder outMesh isMeshData
                    = Some (kSuccess, fst (snd (setEdgeSmoothing api mesh3 edgeSmoothing)))))))"
  using e
  by (cases isMeshData)
     (simp_all add: reorderMesh_def reorderMesh_create_def reorderMesh_apply_def
        setEdgeSmoothing_def Let_def split: prod.splits)

text \<open>
  C4 (as amended). Propagation of the checked failures. In the components:
  \<open>getFaceVertexLocks\<close> returns the failure of \<open>getNormalIds\<close> and leaves \<open>lockedList\<close>
  as it was; the fill loop of \<open>getUVs\<close> returns the failure of the first \<open>getUVs\<close> or
  \<open>getAssignedUVs\<close> query that fails, with the sets before it filled, the failing set
  holding what its queries left and the sets after it untouched, and returns \<open>kSuccess\<close>
  with every set filled when no query fails; \<open>setFaceVertexLocks\<close> returns the failure of
  \<open>getVertices\<close> with the mesh unchanged, and otherwise stops at the first failing one of
  its unlock and lock calls; \<open>setFaceVertexNormals\<close> stops at the first failing one of
  its two calls; \<open>setUVs\<close> stops at the first failing \<open>clearUVs\<close>, \<open>setUVs\<close> or
  \<open>assignUVs\<close>, while a failure of \<open>createUVSet\<close> is ignored. \<open>reorderMesh\<close>, once
  extraction has returned: in the branch that builds a new mesh, a failure of \<open>create\<close>
  is returned at once, with the mesh as \<open>create\<close> left it; after a successful \<open>create\<close>
  (or, in the other branch, a successful \<open>createInPlace\<close>) it returns the failure of the
  first failing step among \<open>setUVs\<close>, \<open>setFaceVertexNormals\<close> and
  \<open>setFaceVertexLocks\<close>, with the mesh as that step left it, and runs no later step;
  when none fails it returns \<open>kSuccess\<close> after \<open>setEdgeSmoothing\<close>.
\<close>

theorem checked_failure_propagation:
  "(fn_getNormalIds api mesh = (s, normalCounts, normalIds) \<and> s \<noteq> kSuccess \<longrightarrow>
      getFaceVertexLocks api mesh lockedList = Some (s, lockedList))
   \<and> ((\<forall>d\<in>set pre. fst (fn_getUVs api mesh (name d)) = kSuccess
                        \<and> fst (fn_getAssignedUVs api mesh (name d)) = kSuccess)
        \<and> fn_getUVs api mesh (name uvData) = (s, us, vs) \<and> s \<noteq> kSuccess \<longrightarrow>
      getUVs_fill api mesh visited (pre @ uvData # rest) =
        (s, visited
              @ map (\<lambda>d. d\<lparr>uArray := fst (snd (fn_getUVs api mesh (name d))),
                             vArray := snd (snd (fn_getUVs api mesh (name d))),
                             uvCounts := fst (snd (fn_getAssignedUVs api mesh (name d))),
                             uvIds := snd (snd (fn_getAssignedUVs api mesh (name d)))\<rparr>) pre
              @ uvData\<lparr>uArray := us, vArray := vs\<rparr> # rest))
   \<and> ((\<forall>d\<in>set pre. fst (fn_getUVs api mesh (name d)) = kSuccess
                        \<and> fst (fn_getAssignedUVs api mesh (name d)) = kSuccess)
        \<and> fn_getUVs api mesh (name uvData) = (kSuccess, us, vs)
        \<and> fn_getAssignedUVs api mesh (name uvData) = (s, counts, ids) \<and> s \<noteq> kSuccess \<longrightarrow>
      getUVs_fill api mesh visited (pre @ uvData # rest) =
        (s, visited
              @ map (\<lambda>d. d\<lparr>uArray := fst (snd (fn_getUVs api mesh (name d))),
                             vArray := snd (snd (fn_getUVs api mesh (name d))),
                             uvCounts := fst (snd (fn_getAssignedUVs api mesh (name d))),
                             uvIds := snd (snd (fn_getAssignedUVs api mesh (name d)))\<rparr>) pre
              @ uvData\<lparr>uArray := us, vArray := vs, uvCounts := counts, uvIds := ids\<rparr> # rest))
   \<and> ((\<forall>d\<in>set pre. fst (fn_getUVs api mesh (name d)) = kSuccess
                        \<and> fst (fn_getAssignedUVs api mesh (name d)) = kSuccess) \<longrightarrow>
      getUVs_fill api mesh visited pre =
        (kSuccess, visited
              @ map (\<lambda>d. d\<lparr>uArray := fst (snd (fn_getUVs api mesh (name d))),
                             vArray := snd (snd (fn_getUVs api mesh (name d))),
                             uvCounts := fst (snd (fn_getAssignedUVs api mesh (name d))),
                             uvIds := snd (snd (fn_getAssignedUVs api mesh (name d)))\<rparr>) pre))
   \<and> (getUVs_names (fn_getUVSetNames api mesh) (fn_numUVSets api mesh) 0
          (resize (fn_numUVSets api mesh) uvSets) = Some named \<longrightarrow>
      getUVs api mesh uvSets = Some (getUVs_fill api mesh [] named))
   \<and> (fn_getVertices api mesh = (s, polyCounts, polyConnects) \<and> s \<noteq> kSuccess \<longrightarrow>
      setFaceVertexLocks api mesh lockedList = Some (s, mesh))
   \<and> (fn_getVertices api mesh = (kSuccess, polyCounts, polyConnects)
        \<and> getFaceVertexList (uninit_int api) polyCounts polyConnects [] []
             = Some (faceList, vertexList)
        \<and> length lockedList = length polyConnects \<longrightarrow>
      setFaceVertexLocks api mesh lockedList =
        Some (issue_calls api all_checked
                (applyLocks_calls (nths (zip faceList vertexList) {i. lockedList ! i \<noteq> 1})
                   (nths (zip faceList vertexList) {i. lockedList ! i = 1})) mesh))
   \<and> (getFaceVertexList (uninit_int api) polyCounts polyConnects [] []
          = Some (faceList, vertexList) \<longrightarrow>
      setFaceVertexNormals api mesh polyCounts polyConnects vertexNormals =
        Some (issue_calls api all_checked
                [SetFaceVertexNormals vertexNormals faceList vertexList,
                 UnlockFaceVertexNormals faceList vertexList] mesh))
   \<and> setUVs api mesh uvSets =
        issue_calls api uv_checked (concat (map applyUVSet_calls uvSets)) mesh
   \<and> (reorderMesh_extract api sourceMesh targetMesh pointOrder isMeshData =
          Some (points, polyCounts, polyConnects, vertexNormals, lockedList, edgeSmoothing, uvSets) \<longrightarrow>
      (isMeshData
           \<and> fn_call api
                (Create (to_int (uint_of (fn_numVertices api sourceMesh)))
                   (to_int (uint_of (fn_numPolygons api sourceMesh)))
                   points polyCounts polyConnects) outMesh = (s0, mesh0)
           \<and> s0 \<noteq> kSuccess \<longrightarrow>
         reorderMesh api sourceMesh targetMesh pointOrder outMesh isMeshData = Some (s0, mesh0))
      \<and> ((isMeshData
            \<and> fn_call api
                (Create (to_int (uint_of (fn_numVertices api sourceMesh)))
                   (to_int (uint_of (fn_numPolygons api sourceMesh)))
                   points polyCounts polyConnects) outMesh = (kSuccess, mesh0)
           \<or> \<not> isMeshData
            \<and> reorderMesh_cast (fn_setCast api) points (uint_of (fn_numVertices api sourceMesh)) 0
                (replicate (uint_of (fn_numVertices api sourceMesh)) (origin_float api))
                = Some floatPoints
            \<and> fn_call api
                (CreateInPlace (to_int (uint_of (fn_numVertices api sourceMesh)))
                   (to_int (uint_of (fn_numPolygons api sourceMesh)))
                   floatPoints polyCounts polyConnects) outMesh = (kSuccess, mesh0))
          \<and> setUVs api mesh0 uvSets = (s1, mesh1) \<longrightarrow>
         (s1 \<noteq> kSuccess \<longrightarrow>
            reorderMesh api sourceMesh targetMesh pointOrder outMesh isMeshData = Some (s1, mesh1))
         \<and> (s1 = kSuccess
              \<and> setFaceVertexNormals api mesh1 polyCounts polyConnects vertexNormals
                    = Some (s2, mesh2) \<longrightarrow>
            (s2 \<noteq> kSuccess \<longrightarrow>
               reorderMesh api sourceMesh targetMesh pointOrder outMesh isMeshData
                 = Some (s2, mesh2))
            \<and> (s2 = kSuccess \<and> setFaceVertexLocks api mesh2 lockedList = Some (s3, mesh3) \<longrightarrow>
               (s3 \<noteq> kSuccess \<longrightarrow>
                  reorderMesh api sourceMesh targetMesh pointOrder outMesh isMeshData
                    = Some (s3, mesh3))
               \<and> (s3 = kSuccess \<longrightarrow>
                  reorderMesh api sourceMesh targetMesh pointOrder outMesh isMeshData
                    = Some (kSuccess, fst (snd (setEdgeSmoothing api mesh3 edgeSmoothing))))))))"
proof -
  have a: "(fn_getNormalIds api mesh = (s, normalCounts, normalIds) \<and> s \<noteq> kSuccess \<longrightarrow>
      getFaceVertexLocks api mesh lockedList = Some (s, lockedList))"
    by (simp add: getFaceVertexLocks_def)
  have b: "((\<forall>d\<in>set pre. fst (fn_getUVs api mesh (name d)) = kSuccess
                        \<and> fst (fn_getAssignedUVs api mesh (name d)) = kSuccess)
        \<and> fn_getUVs api mesh (name uvData) = (s, us, vs) \<and> s \<noteq> kSuccess \<longrightarrow>
      getUVs_fill api mesh visited (pre @ uvData # rest) =
        (s, visited
              @ map (\<lambda>d. d\<lparr>uArray := fst (snd (fn_getUVs api mesh (name d))),
                             vArray := snd (snd (fn_getUVs api mesh (name d))),
                             uvCounts := fst (snd (fn_getAssignedUVs api mesh (name d))),
                             uvIds := snd (snd (fn_getAssignedUVs api mesh (name d)))\<rparr>) pre
              @ uvData\<lparr>uArray := us, vArray := vs\<rparr> # rest))"
    by (simp add: getUVs_fill_prefix Let_def)
  have c: "((\<forall>d\<in>set pre. fst (fn_getUVs api mesh (name d)) = kSuccess
                        \<and> fst (fn_getAssignedUVs api mesh (name d)) = kSuccess)
        \<and> fn_getUVs api mesh (name uvData) = (kSuccess, us, vs)
        \<and> fn_getAssignedUVs api mesh (name uvData) = (s, counts, ids) \<and> s \<noteq> kSuccess \<longrightarrow>
      getUVs_fill api mesh visited (pre @ uvData # rest) =
        (s, visited
              @ map (\<lambda>d. d\<lparr>uArray := fst (snd (fn_getUVs api mesh (name d))),
                             vArray := snd (snd (fn_getUVs api mesh (name d))),
                             uvCounts := fst (snd (fn_getAssignedUVs api mesh (name d))),
                             uvIds := snd (snd (fn_getAssignedUVs api mesh (name d)))\<rparr>) pre
              @ uvData\<lparr>uArray := us, vArray := vs, uvCounts := counts, uvIds := ids\<rparr> # rest))"
    by (simp add: getUVs_fill_prefix Let_def)
  have d: "((\<forall>d\<in>set pre. fst (fn_getUVs api mesh (name d)) = kSuccess
                        \<and> fst (fn_getAssignedUVs api mesh (name d)) = kSuccess) \<longrightarrow>
      getUVs_fill api mesh visited pre =
        (kSuccess, visited
              @ map (\<lambda>d. d\<lparr>uArray := fst (snd (fn_getUVs api mesh (name d))),
                             vArray := snd (snd (fn_getUVs api mesh (name d))),
                             uvCounts := fst (snd (fn_getAssignedUVs api mesh (name d))),
                             uvIds := snd (snd (fn_getAssignedUVs api mesh (name d)))\<rparr>) pre))"
    using getUVs_fill_prefix [of pre api mesh visited "[]"] by simp
  have e: "(getUVs_names (fn_getUVSetNames api mesh) (fn_numUVSets api mesh) 0
          (resize (fn_numUVSets api mesh) uvSets) = Some named \<longrightarrow>
      getUVs api mesh uvSets = Some (getUVs_fill api mesh [] named))"
    by (simp add: getUVs_def Let_def)
  have f: "(fn_getVertices api mesh = (s, polyCounts, polyConnects) \<and> s \<noteq> kSuccess \<longrightarrow>
      setFaceVertexLocks api mesh lockedList = Some (s, mesh))"
    by (simp add: setFaceVertexLocks_def)
  have g: "(fn_getVertices api mesh = (kSuccess, polyCounts, polyConnects)
        \<and> getFaceVertexList (uninit_int api) polyCounts polyConnects [] []
             = Some (faceList, vertexList)
        \<and> length lockedList = length polyConnects \<longrightarrow>
      setFaceVertexLocks api mesh lockedList =
        Some (issue_calls api all_checked
                (applyLocks_calls (nths (zip faceList vertexList) {i. lockedList ! i \<noteq> 1})
                   (nths (zip faceList vertexList) {i. lockedList ! i = 1})) mesh))"
    by (simp add: setFaceVertexLocks_calls)
  have h: "(getFaceVertexList (uninit_int api) polyCounts polyConnects [] []
          = Some (faceList, vertexList) \<longrightarrow>
      setFaceVertexNormals api mesh polyCounts polyConnects vertexNormals =
        Some (issue_calls api all_checked
                [SetFaceVertexNormals vertexNormals faceList vertexList,
                 UnlockFaceVertexNormals faceList vertexList] mesh))"
    by (simp add: setFaceVertexNormals_calls)
  have i: "setUVs api mesh uvSets =
        issue_calls api uv_checked (concat (map applyUVSet_calls uvSets)) mesh"
    by (rule setUVs_calls)
  have j: "(reorderMesh_extract api sourceMesh targetMesh pointOrder isMeshData =
          Some (points, polyCounts, polyConnects, vertexNormals, lockedList, edgeSmoothing, uvSets) \<longrightarrow>
      (isMeshData
           \<and> fn_call api
                (Create (to_int (uint_of (fn_numVertices api sourceMesh)))
                   (to_int (uint_of (fn_numPolygons api sourceMesh)))
                   points polyCounts polyConnects) outMesh = (s0, mesh0)
           \<and> s0 \<noteq> kSuccess \<longrightarrow>
         reorderMesh api sourceMesh targetMesh pointOrder outMesh isMeshData = Some (s0, mesh0))
      \<and> ((isMeshData
            \<and> fn_call api
                (Create (to_int (uint_of (fn_numVertices api sourceMesh)))
                   (to_int (uint_of (fn_numPolygons api sourceMesh)))
                   points polyCounts polyConnects) outMesh = (kSuccess, mesh0)
           \<or> \<not> isMeshData
            \<and> reorderMesh_cast (fn_setCast api) points (uint_of (fn_numVertices api sourceMesh)) 0
                (replicate (uint_of (fn_numVertices api sourceMesh)) (origin_float api))
                = Some floatPoints
            \<and> fn_call api
                (CreateInPlace (to_int (uint_of (fn_numVertices api sourceMesh)))
                   (to_int (uint_of (fn_numPolygons api sourceMesh)))
                   floatPoints polyCounts polyConnects) outMesh = (kSuccess, mesh0))
          \<and> setUVs api mesh0 uvSets = (s1, mesh1) \<longrightarrow>
         (s1 \<noteq> kSuccess \<longrightarrow>
            reorderMesh api sourceMesh targetMesh pointOrder outMesh isMeshData = Some (s1, mesh1))
         \<and> (s1 = kSuccess
              \<and> setFaceVertexNormals api mesh1 polyCounts polyConnects vertexNormals
                    = Some (s2, mesh2) \<longrightarrow>
            (s2 \<noteq> kSuccess \<longrightarrow>
               reorderMesh api sourceMesh targetMesh pointOrder outMesh isMeshData
                 = Some (s2, mesh2))
            \<and> (s2 = kSuccess \<and> setFaceVertexLocks api mesh2 lockedList = Some (s3, mesh3) \<longrightarrow>
               (s3 \<noteq> kSuccess \<longrightarrow>
                  reorderMesh api sourceMesh targetMesh pointOrder outMesh isMeshData
                    = Some (s3, mesh3))
               \<and> (s3 = kSuccess \<longrightarrow>
                  reorderMesh api sourceMesh targetMesh pointOrder outMesh isMeshData
                    = Some (kSuccess, fst (snd (setEdgeSmoothing api mesh3 edgeSmoothing))))))))"
    by (intro impI) (rule reorderMesh_steps)
  from a b c d e f g h i j show ?thesis by (intro conjI)
qed


text \<open>
  The quad on three stores. Where \<open>create\<close> fails, \<open>reorderMesh\<close> returns its
  \<open>kInsufficientMemory\<close> and \<open>create\<close> is the only call the output mesh receives.
  Where \<open>lockFaceVertexNormals\<close> fails, \<open>reorderMesh\<close> returns \<open>kFailure\<close> and the
  lock call is the last call the output mesh receives. Where the \<open>getUVs\<close> query fails
  for the set \<open>uv2\<close>, the fill loop returns \<open>kFailure\<close> with the set \<open>map1\<close> filled and
  the assignments of \<open>uv2\<close> not queried.
\<close>

theorem checked_failure_propagation_witness:
  "reorderMesh (test_store refuse_create) quad quad [1, 0, 3, 2] quad True
     = Some (kInsufficientMemory,
             quad\<lparr>d_calls := [Create 4 1 [11, 10, 13, 12] [4] [1, 0, 3, 2]]\<rparr>)
   \<and> map_option fst (reorderMesh (test_store refuse_lock) quad quad [1, 0, 3, 2] quad True)
     = Some kFailure
   \<and> map_option (d_calls \<circ> snd)
         (reorderMesh (test_store refuse_lock) quad quad [1, 0, 3, 2] quad True)
     = Some [Create 4 1 [11, 10, 13, 12] [4] [1, 0, 3, 2],
             ClearUVs ''map1'', SetUVs [1, 2] [3, 4] ''map1'',
             AssignUVs [4] [0, 1, 0, 1] ''map1'', CreateUVSet ''uv2'',
             ClearUVs ''uv2'', SetUVs [5] [6] ''uv2'', AssignUVs [4] [0, 0, 0, 0] ''uv2'',
             SetFaceVertexNormals [100, 101, 102, 103] [0, 0, 0, 0] [1, 0, 3, 2],
             UnlockFaceVertexNormals [0, 0, 0, 0] [1, 0, 3, 2],
             UnlockFaceVertexNormals [0, 0] [0, 2],
             LockFaceVertexNormals [0, 0] [1, 3]]
   \<and> getUVs_fill (refuse_getUVs ''uv2'' (test_store succeed)) quad []
        [emptyUVSetData\<lparr>name := ''map1''\<rparr>, emptyUVSetData\<lparr>name := ''uv2''\<rparr>]
     = (kFailure,
        [\<lparr>name = ''map1'', uArray = [1, 2], vArray = [3, 4], uvCounts = [4],
           uvIds = [0, 1, 0, 1]\<rparr>,
         \<lparr>name = ''uv2'', uArray = [], vArray = [], uvCounts = [], uvIds = []\<rparr>])"
proof -
  let ?api = "test_store refuse_lock :: (test_mesh, int, int, int, int) store"
  let ?api2 = "test_store refuse_create :: (test_mesh, int, int, int, int) store"
  let ?api3 = "refuse_getUVs ''uv2'' (test_store succeed :: (test_mesh, int, int, int, int) store)"
  define E where "E = the (reorderMesh_extract ?api quad quad [1, 0, 3, 2] True)"
  define points where "points = fst E"
  define polyCounts where "polyCounts = fst (snd E)"
  define polyConnects where "polyConnects = fst (snd (snd E))"
  define vertexNormals where "vertexNormals = fst (snd (snd (snd E)))"
  define lockedList where "lockedList = fst (snd (snd (snd (snd E))))"
  define edgeSmoothing where "edgeSmoothing = fst (snd (snd (snd (snd (snd E)))))"
  define uvSets where "uvSets = snd (snd (snd (snd (snd (snd E)))))"
  note defs = points_def polyCounts_def polyConnects_def vertexNormals_def lockedList_def
    edgeSmoothing_def uvSets_def
  have "reorderMesh_extract ?api quad quad [1, 0, 3, 2] True \<noteq> None"
    by (simp add: run_simps quad_def)
  then have ex: "reorderMesh_extract ?api quad quad [1, 0, 3, 2] True =
      Some (points, polyCounts, polyConnects, vertexNormals, lockedList, edgeSmoothing, uvSets)"
    by (auto simp: defs E_def)
  have ex2: "reorderMesh_extract ?api2 quad quad [1, 0, 3, 2] True =
      Some (points, polyCounts, polyConnects, vertexNormals, lockedList, edgeSmoothing, uvSets)"
    unfolding defs E_def by (simp add: run_simps quad_def)
  have vals: "points = [11, 10, 13, 12]" "polyCounts = [4]" "polyConnects = [1, 0, 3, 2]"
    "vertexNormals = [100, 101, 102, 103]" "lockedList = [1, 0, 1, 0]"
    "uvSets = d_uvSets quad"
    unfolding defs E_def by (simp_all add: run_simps quad_def)
  have cr2: "fn_call ?api2
      (Create (to_int (uint_of (fn_numVertices ?api2 quad)))
         (to_int (uint_of (fn_numPolygons ?api2 quad))) points polyCounts polyConnects) quad
      = (kInsufficientMemory, quad\<lparr>d_calls := [Create 4 1 [11, 10, 13, 12] [4] [1, 0, 3, 2]]\<rparr>)"
    by (simp add: vals run_simps refuse_create_def quad_def)
  from checked_failure_propagation [where api = ?api2 and polyCounts = polyCounts
      and polyConnects = polyConnects and vertexNormals = vertexNormals and uvSets = uvSets
      and sourceMesh = quad and targetMesh = quad and pointOrder = "[1, 0, 3, 2]"
      and isMeshData = True and points = points and lockedList = lockedList
      and edgeSmoothing = edgeSmoothing and outMesh = quad and ?s0.0 = kInsufficientMemory
      and ?mesh0.0 = "quad\<lparr>d_calls := [Create 4 1 [11, 10, 13, 12] [4] [1, 0, 3, 2]]\<rparr>"]
    ex2 cr2
  have a: "reorderMesh ?api2 quad quad [1, 0, 3, 2] quad True =
      Some (kInsufficientMemory, quad\<lparr>d_calls := [Create 4 1 [11, 10, 13, 12] [4] [1, 0, 3, 2]]\<rparr>)"
    by simp
  define mesh0 where "mesh0 = quad\<lparr>d_points := [11, 10, 13, 12], d_connects := [1, 0, 3, 2],
      d_calls := [Create 4 1 [11, 10, 13, 12] [4] [1, 0, 3, 2]]\<rparr>"
  have cr: "fn_call ?api
      (Create (to_int (uint_of (fn_numVertices ?api quad)))
         (to_int (uint_of (fn_numPolygons ?api quad))) points polyCounts polyConnects) quad
      = (kSuccess, mesh0)"
    by (simp add: vals run_simps quad_def mesh0_def)
  define mesh1 where "mesh1 = snd (setUVs ?api mesh0 uvSets)"
  have uv: "setUVs ?api mesh0 uvSets = (kSuccess, mesh1)"
    by (simp add: mesh1_def vals run_simps quad_def mesh0_def)
  define mesh2 where
    "mesh2 = snd (the (setFaceVertexNormals ?api mesh1 polyCounts polyConnects vertexNormals))"
  have nm: "setFaceVertexNormals ?api mesh1 polyCounts polyConnects vertexNormals =
      Some (kSuccess, mesh2)"
    by (simp add: mesh2_def mesh1_def vals run_simps quad_def mesh0_def)
  define mesh3 where "mesh3 = snd (the (setFaceVertexLocks ?api mesh2 lockedList))"
  have lk: "setFaceVertexLocks ?api mesh2 lockedList = Some (kFailure, mesh3)"
    by (simp add: mesh3_def mesh2_def mesh1_def vals run_simps quad_def mesh0_def)
  from checked_failure_propagation [where api = ?api and polyCounts = polyCounts
      and polyConnects = polyConnects and vertexNormals = vertexNormals and uvSets = uvSets
      and sourceMesh = quad and targetMesh = quad and pointOrder = "[1, 0, 3, 2]"
      and isMeshData = True and points = points and lockedList = lockedList
      and edgeSmoothing = edgeSmoothing and outMesh = quad
      and ?mesh0.0 = mesh0 and ?s1.0 = kSuccess and ?mesh1.0 = mesh1 and ?s2.0 = kSuccess
      and ?mesh2.0 = mesh2 and ?s3.0 = kFailure and ?mesh3.0 = mesh3]
    ex cr uv nm lk
  have "reorderMesh ?api quad quad [1, 0, 3, 2] quad True = Some (kFailure, mesh3)"
    by simp
  then have b: "map_option fst (reorderMesh ?api quad quad [1, 0, 3, 2] quad True) = Some kFailure
   \<and> map_option (d_calls \<circ> snd) (reorderMesh ?api quad quad [1, 0, 3, 2] quad True)
     = Some [Create 4 1 [11, 10, 13, 12] [4] [1, 0, 3, 2],
             ClearUVs ''map1'', SetUVs [1, 2] [3, 4] ''map1'',
             AssignUVs [4] [0, 1, 0, 1] ''map1'', CreateUVSet ''uv2'',
             ClearUVs ''uv2'', SetUVs [5] [6] ''uv2'', AssignUVs [4] [0, 0, 0, 0] ''uv2'',
             SetFaceVertexNormals [100, 101, 102, 103] [0, 0, 0, 0] [1, 0, 3, 2],
             UnlockFaceVertexNormals [0, 0, 0, 0] [1, 0, 3, 2],
             UnlockFaceVertexNormals [0, 0] [0, 2],
             LockFaceVertexNormals [0, 0] [1, 3]]"
    by (simp add: mesh3_def mesh2_def mesh1_def vals run_simps quad_def mesh0_def)
  from checked_failure_propagation [where api = ?api3 and mesh = quad
      and pre = "[emptyUVSetData\<lparr>name := ''map1''\<rparr>]"
      and uvData = "emptyUVSetData\<lparr>name := ''uv2''\<rparr>" and rest = "[]" and visited = "[]"
      and s = kFailure and us = "[]" and vs = "[]", THEN conjunct2, THEN conjunct1]
  have c: "getUVs_fill ?api3 quad []
        [emptyUVSetData\<lparr>name := ''map1''\<rparr>, emptyUVSetData\<lparr>name := ''uv2''\<rparr>]
     = (kFailure,
        [\<lparr>name = ''map1'', uArray = [1, 2], vArray = [3, 4], uvCounts = [4],
           uvIds = [0, 1, 0, 1]\<rparr>,
         \<lparr>name = ''uv2'', uArray = [], vArray = [], uvCounts = [], uvIds = []\<rparr>])"
    by (simp add: refuse_getUVs_def test_store_def quad_def emptyUVSetData_def)
  from a b c show ?thesis by simp
qed

text \<open>
  C4 as the spec words it (every component returns a failure as soon as a store call
  fails) does not hold for \<open>setUVs\<close>: \<open>createUVSet\<close> fails for the set \<open>uv2\<close>, and
  \<open>setUVs\<close> goes on to clear, write and assign that set and returns \<open>kSuccess\<close>.
\<close>

theorem setUVs_createUVSet_counterexample:
  "fst (fn_call (test_store refuse_createUVSet) (CreateUVSet ''uv2'') quad) = kFailure
   \<and> setUVs (test_store refuse_createUVSet) quad (d_uvSets quad) =
       (kSuccess,
        quad\<lparr>d_calls := [ClearUVs ''map1'', SetUVs [1, 2] [3, 4] ''map1'',
                          AssignUVs [4] [0, 1, 0, 1] ''map1'', CreateUVSet ''uv2'',
                          ClearUVs ''uv2'', SetUVs [5] [6] ''uv2'',
                          AssignUVs [4] [0, 0, 0, 0] ''uv2'']\<rparr>)"
  by (simp add: run_simps quad_def)

text \<open>
  The statuses of the extraction steps are dropped by \<open>reorderMesh\<close> (lines 334-342),
  unlike those of the application steps: with a target mesh whose \<open>getUVs\<close> query fails,
  \<open>polyReorder::getUVs\<close> returns \<open>kFailure\<close> and \<open>reorderMesh\<close> still returns \<open>kSuccess\<close>.
\<close>

lemma reorderMesh_drops_extraction_status:
  "map_option fst (getUVs (test_store succeed) (quad\<lparr>d_uvStatus := kFailure\<rparr>) [])
     = Some kFailure
   \<and> map_option fst (reorderMesh (test_store succeed) quad (quad\<lparr>d_uvStatus := kFailure\<rparr>)
         [1, 0, 3, 2] quad True) = Some kSuccess"
  by (simp add: run_simps quad_def)

end
